theory Spec2Isabelle
  imports Complex_Main "HOL-Library.AList" "HOL-Library.Char_ord" "HOL-Library.List_Lexorder"
begin

text \<open>
  A model of Solid Wire's local-first store: the record store over IndexedDB and its public
  API (idb.ts), and the sync engine \<open>triggerSync\<close> of \<open>WireStoreService\<close>. Asynchronous
  functions are functions from the state before the call to the way their promise ends and
  the state they leave; the points at which other code can run in between are made explicit
  for \<open>triggerSync\<close> by an event model. Of the triggers of the engine (mount, notifier,
  timer) the model has what they do with the promise of \<open>triggerSync\<close>; the reactive change
  tracker and the cache are not modelled.
\<close>

section \<open>Data model (types.ts)\<close>

text \<open>
  JavaScript values as far as the store handles them: the \<open>data\<close> payload of a record
  has type \<open>any\<close>. A number is a finite number other than \<open>-0\<close> (\<open>JNum\<close>, every finite
  double is a rational), \<open>-0\<close>, \<open>NaN\<close>, or \<open>Infinity\<close> with its sign (\<open>True\<close> for \<open>+\<close>). An
  object is the list of its own enumerable properties in property order. The store never
  calls a function it finds in the data, but \<open>JSON.stringify\<close> calls an own \<open>toJSON\<close> method:
  a function carries what it returns when it is called as the \<open>toJSON\<close> method of the object
  that holds it, \<open>None\<close> when it throws.
\<close>

datatype jsval =
    JUndefined
  | JNull
  | JBool bool
  | JNum rat
  | JNegZero
  | JNaN
  | JInfinity bool
  | JStr string
  | JFunction "jsval option"
  | JArr "jsval list"
  | JObj "(string \<times> jsval) list"

text \<open>
  \<open>IdbRecord\<close>: \<open>deleted?: boolean\<close> and \<open>unsynced?: "true"\<close> are optional fields, absent
  is \<open>None\<close>. The fields \<open>id\<close> and \<open>type\<close> are named \<open>rec_id\<close> and \<open>rec_type\<close>.
\<close>

record IdbRecord =
  rec_id :: string
  rec_type :: string
  deleted :: "bool option"
  unsynced :: "string option"
  data :: jsval

datatype UnsyncedRecordState = Updated | Deleted

record UnsyncedRecord =
  u_id :: string
  u_state :: UnsyncedRecordState
  u_type :: string
  u_data :: jsval

record SyncedRecord =
  s_id :: string
  s_state :: UnsyncedRecordState
  s_type :: string
  s_data :: jsval

text \<open>
  The object handed to \<open>config.sync\<close> and the object it resolves with
  (\<open>{ records, syncCursor? }\<close>).
\<close>

record sync_request =
  records :: "UnsyncedRecord list"
  namespace :: string
  syncCursor :: "string option"

record sync_response =
  r_records :: "SyncedRecord list"
  r_syncCursor :: "string option"

text \<open>
  The argument list of one JavaScript call of the exchange function: each element is one
  positional argument.
\<close>

datatype jsarg =
    ArgRecords "UnsyncedRecord list"
  | ArgString string
  | ArgUndefined
  | ArgObject sync_request

section \<open>Promises, errors and the environment\<close>

text \<open>
  The requests the code sends to IndexedDB; each has an \<open>onerror\<close> path in the source.
\<close>

datatype idb_request =
    ReqOpen
  | ReqGet string
  | ReqPut string
  | ReqDelete string
  | ReqGetAllUnsynced
  | ReqGetAllType string

text \<open>
  The values the source rejects with, one constructor per message: \<open>OpenError\<close> "error when
  opening the database", \<open>ReadRecordError id\<close> "error when reading record", \<open>DeleteError\<close>
  "Error deleting record", \<open>UpdateError\<close> "error when updating data", \<open>ReadUnsyncedError\<close>
  "error when reading records", \<open>ReadTypeError type\<close> "error when reading records of type".
  \<open>ExchangeError e\<close> is whatever the exchange function rejected with or threw,
  \<open>JSONError\<close> the \<open>SyntaxError\<close> of \<open>JSON.parse(undefined)\<close>, \<open>ToJSONError\<close> what a \<open>toJSON\<close>
  method throws inside \<open>JSON.stringify\<close>, \<open>QuotaExceededError\<close> what \<open>localStorage.setItem\<close>
  throws, \<open>SubscriberError\<close> what a subscriber of the notifier throws.
\<close>

datatype error =
    OpenError
  | ReadRecordError string
  | DeleteError
  | UpdateError
  | ReadUnsyncedError
  | ReadTypeError string
  | ExchangeError string
  | JSONError
  | ToJSONError
  | QuotaExceededError
  | SubscriberError string

text \<open>
  How a promise ends: it resolves with a value, rejects with an error, or never settles.
  The last case is reachable in the source: inside \<open>new Promise(async (resolve, reject) => ...)\<close>
  an exception of the asynchronous executor reaches neither \<open>resolve\<close> nor \<open>reject\<close>.
\<close>

datatype 'a outcome = Resolved 'a | Rejected error | Pending

text \<open>
  The \<open>Hooks\<close> type is imported from types.ts but its declaration is not part of the sources;
  a hook is used only through \<open>hook[stage]!(record.type, record.data)\<close>, whose result is
  discarded. The call receives the data by reference: what a hook does is to throw or
  reject (\<open>HookRejects\<close>), or to settle, after some number of further turns of the job queue
  (\<open>0\<close> for a hook that returns no promise), having left some value in place of the data
  (\<open>HookSettles\<close>). A stage of a hook is an optional function of the type and the data.
\<close>

datatype stage = BeforeRead | BeforeSave

datatype hook_result = HookRejects | HookSettles jsval nat

record Hooks =
  beforeRead :: "(string \<Rightarrow> jsval \<Rightarrow> hook_result) option"
  beforeSave :: "(string \<Rightarrow> jsval \<Rightarrow> hook_result) option"

text \<open>
  The environment of a run: which IndexedDB requests fire \<open>onerror\<close>, the configured hooks
  (\<open>hooks?: Hooks[]\<close>, \<open>None\<close> when the argument is left out), and whether
  \<open>localStorage.setItem\<close> throws.
\<close>

record env =
  request_fails :: "idb_request \<Rightarrow> bool"
  hooks :: "Hooks list option"
  setItem_fails :: bool

text \<open>\<open>Promise.all\<close>: the first rejection wins; otherwise pending if some promise never settles.\<close>

fun promise_all :: "'a outcome list \<Rightarrow> 'a list outcome" where
  "promise_all [] = Resolved []"
| "promise_all (Rejected e # ps) = Rejected e"
| "promise_all (Pending # ps) =
     (case promise_all ps of Rejected e \<Rightarrow> Rejected e | _ \<Rightarrow> Pending)"
| "promise_all (Resolved x # ps) =
     (case promise_all ps of
        Rejected e \<Rightarrow> Rejected e
      | Pending \<Rightarrow> Pending
      | Resolved xs \<Rightarrow> Resolved (x # xs))"

definition settled :: "'a list outcome \<Rightarrow> unit outcome" where
  "settled p = (case p of Resolved _ \<Rightarrow> Resolved () | Rejected e \<Rightarrow> Rejected e | Pending \<Rightarrow> Pending)"

section \<open>JSON round trip and object spread\<close>

text \<open>
  \<open>JSON.parse(JSON.stringify(v))\<close>, following \<open>SerializeJSONProperty\<close>. The result for a
  value held by an array or object is \<open>Json\<close> of the value read back, \<open>Absent\<close> where
  \<open>JSON.stringify\<close> yields \<open>undefined\<close> (such an array element becomes \<open>null\<close>, such a
  property is left out), or \<open>Throws\<close>. \<open>JSON_property\<close> first calls a callable own \<open>toJSON\<close>
  of an object (\<open>JSON_toJSON\<close>, \<open>None\<close> when there is none) and serialises what it returns;
  \<open>JSON_plain\<close> is the serialisation after that step. A non-finite number becomes \<open>null\<close>,
  \<open>-0\<close> becomes \<open>0\<close>.
\<close>

datatype json_result = Throws | Absent | Json jsval

fun JSON_property :: "jsval \<Rightarrow> json_result"
  and JSON_plain :: "jsval \<Rightarrow> json_result"
  and JSON_toJSON :: "(string \<times> jsval) list \<Rightarrow> json_result option"
  and JSON_items :: "jsval list \<Rightarrow> jsval list option"
  and JSON_props :: "(string \<times> jsval) list \<Rightarrow> (string \<times> jsval) list option" where
  "JSON_property (JObj ps) =
     (case JSON_toJSON ps of Some res \<Rightarrow> res | None \<Rightarrow> JSON_plain (JObj ps))"
| "JSON_property v = JSON_plain v"
| "JSON_plain JUndefined = Absent"
| "JSON_plain (JFunction r) = Absent"
| "JSON_plain JNull = Json JNull"
| "JSON_plain (JBool b) = Json (JBool b)"
| "JSON_plain (JNum q) = Json (JNum q)"
| "JSON_plain JNegZero = Json (JNum 0)"
| "JSON_plain JNaN = Json JNull"
| "JSON_plain (JInfinity b) = Json JNull"
| "JSON_plain (JStr s) = Json (JStr s)"
| "JSON_plain (JArr xs) = (case JSON_items xs of None \<Rightarrow> Throws | Some ys \<Rightarrow> Json (JArr ys))"
| "JSON_plain (JObj ps) = (case JSON_props ps of None \<Rightarrow> Throws | Some qs \<Rightarrow> Json (JObj qs))"
| "JSON_toJSON [] = None"
| "JSON_toJSON ((k, JFunction None) # ps) =
     (if k = ''toJSON'' then Some Throws else JSON_toJSON ps)"
| "JSON_toJSON ((k, JFunction (Some v)) # ps) =
     (if k = ''toJSON'' then Some (JSON_plain v) else JSON_toJSON ps)"
| "JSON_toJSON ((k, v) # ps) = (if k = ''toJSON'' then None else JSON_toJSON ps)"
| "JSON_items [] = Some []"
| "JSON_items (x # xs) =
     (case JSON_property x of
        Throws \<Rightarrow> None
      | Absent \<Rightarrow> map_option (Cons JNull) (JSON_items xs)
      | Json v \<Rightarrow> map_option (Cons v) (JSON_items xs))"
| "JSON_props [] = Some []"
| "JSON_props ((k, x) # ps) =
     (case JSON_property x of
        Throws \<Rightarrow> None
      | Absent \<Rightarrow> JSON_props ps
      | Json v \<Rightarrow> map_option (Cons (k, v)) (JSON_props ps))"

text \<open>
  At top level a \<open>toJSON\<close> that throws makes \<open>JSON.stringify\<close> throw; where
  \<open>JSON.stringify\<close> yields \<open>undefined\<close>, \<open>JSON.parse(undefined)\<close> throws.
\<close>

definition JSON_roundtrip :: "jsval \<Rightarrow> error + jsval" where
  "JSON_roundtrip d =
     (case JSON_property d of
        Throws \<Rightarrow> Inl ToJSONError
      | Absent \<Rightarrow> Inl JSONError
      | Json v \<Rightarrow> Inr v)"


text \<open>Decimal \<open>toString()\<close> of a non-negative integer.\<close>

fun string_of_nat :: "nat \<Rightarrow> string" where
  "string_of_nat n =
     (if n < 10 then [''0123456789'' ! n]
      else string_of_nat (n div 10) @ [''0123456789'' ! (n mod 10)])"

declare string_of_nat.simps [simp del]

text \<open>
  \<open>{ ...v }\<close>: the own enumerable properties of \<open>v\<close> in a fresh object. An array and a string
  have their indices as properties; the other values have none.
\<close>

definition spread :: "jsval \<Rightarrow> jsval" where
  "spread v =
     (case v of
        JObj ps \<Rightarrow> JObj ps
      | JArr xs \<Rightarrow> JObj (zip (map string_of_nat [0 ..< length xs]) xs)
      | JStr s \<Rightarrow> JObj (zip (map string_of_nat [0 ..< length s]) (map (\<lambda>c. JStr [c]) s))
      | _ \<Rightarrow> JObj [])"

section \<open>Record store (idb.ts)\<close>

text \<open>
  The object store \<open>records\<close> with key path \<open>id\<close>: a list of records. \<open>store_get\<close> is
  \<open>objectStore.get(id)\<close>, \<open>store_delete\<close> is \<open>objectStore.delete(id)\<close>, \<open>store_put\<close> is
  \<open>objectStore.put(record)\<close>, which replaces the row of that key and keeps key order.
\<close>

type_synonym store = "IdbRecord list"

definition store_get :: "string \<Rightarrow> store \<Rightarrow> IdbRecord option" where
  "store_get i s = find (\<lambda>r. rec_id r = i) s"

definition store_delete :: "string \<Rightarrow> store \<Rightarrow> store" where
  "store_delete i s = filter (\<lambda>r. rec_id r \<noteq> i) s"

definition store_put :: "IdbRecord \<Rightarrow> store \<Rightarrow> store" where
  "store_put r s = insort_key rec_id r (store_delete (rec_id r) s)"

text \<open>
  What a hook can leave in place of the data it was handed: it can change the properties of
  an object and the elements of an array, and nothing of another value.
\<close>

definition mutate :: "jsval \<Rightarrow> jsval \<Rightarrow> jsval" where
  "mutate d d' =
     (case d of
        JObj _ \<Rightarrow> (case d' of JObj ps \<Rightarrow> JObj ps | _ \<Rightarrow> d)
      | JArr _ \<Rightarrow> (case d' of JArr xs \<Rightarrow> JArr xs | _ \<Rightarrow> d)
      | _ \<Rightarrow> d)"

definition hook_stage :: "stage \<Rightarrow> Hooks \<Rightarrow> (string \<Rightarrow> jsval \<Rightarrow> hook_result) option" where
  "hook_stage st h = (case st of BeforeRead \<Rightarrow> beforeRead h | BeforeSave \<Rightarrow> beforeSave h)"

text \<open>
  The hooks of a stage, called in registration order on the same data: \<open>None\<close> when one of
  them throws or rejects, otherwise the data they leave and the number of turns after which
  the last of them has settled. A change of the data is taken to happen at the call.
\<close>

fun call_all :: "(string \<Rightarrow> jsval \<Rightarrow> hook_result) list \<Rightarrow> string \<Rightarrow> jsval
    \<Rightarrow> (jsval \<times> nat) option" where
  "call_all [] t d = Some (d, 0)"
| "call_all (f # fs) t d =
     (case f t d of
        HookRejects \<Rightarrow> None
      | HookSettles d' n \<Rightarrow>
          (case call_all fs t (mutate d d') of
             None \<Rightarrow> None
           | Some (d'', m) \<Rightarrow> Some (d'', max n m)))"

text \<open>
  \<open>callHooks\<close>: \<open>None\<close> when its promise rejects, otherwise the record as the hooks leave it
  and the number of turns its promise takes to resolve beyond those of the early return.
\<close>

definition callHooks :: "env \<Rightarrow> stage \<Rightarrow> IdbRecord option \<Rightarrow> (IdbRecord option \<times> nat) option" where
  "callHooks e st rec =
     (case hooks e of
        None \<Rightarrow> Some (rec, 0)
      | Some hs \<Rightarrow>
          (case rec of
             None \<Rightarrow> Some (None, 0)
           | Some r \<Rightarrow>
               if deleted r = Some True then Some (rec, 0)
               else
                 (case call_all (List.map_filter (hook_stage st) hs) (rec_type r) (data r) of
                    None \<Rightarrow> None
                  | Some (d, n) \<Rightarrow> Some (Some (r\<lparr>data := d\<rparr>), Suc n))))"

text \<open>\<open>callHooks\<close> on a record that is there.\<close>

definition hooked :: "env \<Rightarrow> stage \<Rightarrow> IdbRecord \<Rightarrow> (IdbRecord \<times> nat) option" where
  "hooked e st r =
     (case callHooks e st (Some r) of
        None \<Rightarrow> None
      | Some (rec, n) \<Rightarrow> (case rec of None \<Rightarrow> None | Some r' \<Rightarrow> Some (r', n)))"

text \<open>
  \<open>getRawUnhookedRecord\<close>: \<open>open()\<close> is awaited inside the asynchronous executor, so a
  failing open leaves the promise pending.
\<close>

definition getRawUnhookedRecord :: "env \<Rightarrow> string \<Rightarrow> store \<Rightarrow> IdbRecord option outcome" where
  "getRawUnhookedRecord e i s =
     (if request_fails e ReqOpen then Pending
      else if request_fails e (ReqGet i) then Rejected (ReadRecordError i)
      else Resolved (store_get i s))"

text \<open>
  One element of the \<open>Promise.all\<close> of \<open>purge\<close> and of \<open>put\<close>: the outcome of the request and
  the store it leaves.
\<close>

definition delete_one :: "env \<Rightarrow> string \<Rightarrow> store \<Rightarrow> unit outcome \<times> store" where
  "delete_one e i s =
     (if request_fails e (ReqDelete i) then (Rejected DeleteError, s)
      else (Resolved (), store_delete i s))"

definition put_request :: "env \<Rightarrow> IdbRecord \<Rightarrow> store \<Rightarrow> unit outcome \<times> store" where
  "put_request e r s =
     (if request_fails e (ReqPut (rec_id r)) then (Rejected UpdateError, s)
      else (Resolved (), store_put r s))"

text \<open>
  The requests of one \<open>Promise.all\<close> are all issued, in the order given; a failing one does
  not stop the others.
\<close>

fun run_all :: "('a \<Rightarrow> store \<Rightarrow> unit outcome \<times> store) \<Rightarrow> 'a list \<Rightarrow> store
    \<Rightarrow> unit outcome list \<times> store" where
  "run_all f [] s = ([], s)"
| "run_all f (x # xs) s =
     (case f x s of (p, s1) \<Rightarrow> (case run_all f xs s1 of (ps, s2) \<Rightarrow> (p # ps, s2)))"

definition purge :: "env \<Rightarrow> string list \<Rightarrow> store \<Rightarrow> unit outcome \<times> store" where
  "purge e ids s =
     (if ids = [] then (Resolved (), s)
      else if request_fails e ReqOpen then (Rejected OpenError, s)
      else
        (case promise_all (map (\<lambda>i. getRawUnhookedRecord e i s) ids) of
           Rejected err \<Rightarrow> (Rejected err, s)
         | Pending \<Rightarrow> (Pending, s)
         | Resolved found \<Rightarrow>
             (case run_all (delete_one e) ids s of (ps, s1) \<Rightarrow> (settled (promise_all ps), s1))))"

text \<open>
  \<open>put\<close> starts one promise per record, in list order; each awaits \<open>callHooks\<close> and then
  issues its \<open>put\<close> request with the record as the hooks left it. So the requests are issued
  in the order in which the \<open>callHooks\<close> promises resolve (\<open>put_order\<close>, list order among equal
  turns), and a record whose hooks reject gets no request and a promise that never settles
  (\<open>put_pending\<close>).
\<close>

definition put_order :: "env \<Rightarrow> IdbRecord list \<Rightarrow> IdbRecord list" where
  "put_order e rs = map fst (sort_key snd (List.map_filter (hooked e BeforeSave) rs))"

definition put_pending :: "env \<Rightarrow> IdbRecord list \<Rightarrow> IdbRecord list" where
  "put_pending e rs = filter (\<lambda>r. hooked e BeforeSave r = None) rs"

definition put :: "env \<Rightarrow> IdbRecord list \<Rightarrow> store \<Rightarrow> unit outcome \<times> store" where
  "put e rs s =
     (if rs = [] then (Resolved (), s)
      else if request_fails e ReqOpen then (Rejected OpenError, s)
      else
        (case run_all (put_request e) (put_order e rs) s of
           (ps, s1) \<Rightarrow>
             (settled (promise_all (ps @ map (\<lambda>_. Pending) (put_pending e rs))), s1)))"

text \<open>The rows of the \<open>unsynced\<close> index under the key \<open>"true"\<close>.\<close>

definition unsynced_rows :: "store \<Rightarrow> IdbRecord list" where
  "unsynced_rows s = filter (\<lambda>r. unsynced r = Some ''true'') s"

definition getRawUnhookedUnsyncedRecords :: "env \<Rightarrow> store \<Rightarrow> IdbRecord list outcome" where
  "getRawUnhookedUnsyncedRecords e s =
     (if request_fails e ReqOpen then Rejected OpenError
      else if request_fails e ReqGetAllUnsynced then Rejected ReadUnsyncedError
      else Resolved (unsynced_rows s))"

section \<open>Public record API (idb.ts, \<open>publicApi\<close>)\<close>

text \<open>
  What the store service owns: the object store, \<open>localStorage\<close>, the \<open>syncing\<close> flag, and two
  observations of a run: the calls the sync engine made (\<open>trace\<close>) and how often
  \<open>notifyUnsyncedChanges\<close> was called (\<open>notifications\<close>).
\<close>

datatype call =
    CallExchange "jsarg list"
  | CallPut "IdbRecord list"
  | CallPurge "string list"

record wire =
  db :: store
  localStorage :: "string \<rightharpoonup> string"
  syncing :: bool
  trace :: "call list"
  notifications :: nat

definition tombstone :: "string \<Rightarrow> string \<Rightarrow> IdbRecord" where
  "tombstone t i =
     \<lparr>rec_id = i, rec_type = t, deleted = Some True, unsynced = Some ''true'', data = JObj []\<rparr>"

definition notifyUnsyncedChanges :: "wire \<Rightarrow> wire" where
  "notifyUnsyncedChanges w = w\<lparr>notifications := Suc (notifications w)\<rparr>"

definition softDelete :: "env \<Rightarrow> string \<Rightarrow> string list \<Rightarrow> wire \<Rightarrow> unit outcome \<times> wire" where
  "softDelete e t ids w =
     (if ids = [] then (Resolved (), w)
      else
        (case run_all (\<lambda>i. put e [tombstone t i]) ids (db w) of
           (ps, s1) \<Rightarrow>
             (case promise_all ps of
                Resolved _ \<Rightarrow> (Resolved (), notifyUnsyncedChanges (w\<lparr>db := s1\<rparr>))
              | Rejected err \<Rightarrow> (Rejected err, w\<lparr>db := s1\<rparr>)
              | Pending \<Rightarrow> (Pending, w\<lparr>db := s1\<rparr>))))"

definition set_api :: "env \<Rightarrow> string \<Rightarrow> string \<Rightarrow> jsval \<Rightarrow> wire \<Rightarrow> unit outcome \<times> wire" where
  "set_api e t i d w =
     (case JSON_roundtrip d of
        Inl err \<Rightarrow> (Rejected err, w)
      | Inr v \<Rightarrow>
          (case put e [\<lparr>rec_id = i, rec_type = t, deleted = None, unsynced = Some ''true'',
                        data = v\<rparr>] (db w) of
             (p, s1) \<Rightarrow>
               (case p of
                  Resolved _ \<Rightarrow> (Resolved (), notifyUnsyncedChanges (w\<lparr>db := s1\<rparr>))
                | Rejected err \<Rightarrow> (Rejected err, w\<lparr>db := s1\<rparr>)
                | Pending \<Rightarrow> (Pending, w\<lparr>db := s1\<rparr>))))"

text \<open>
  \<open>get\<close> and \<open>all\<close> read the store only. The record type of the enclosing \<open>publicApi(type)\<close>
  is used by \<open>get\<close> for the change tracker alone, so \<open>get_api\<close> does not take it. Both hand
  the rows they have read to the \<open>beforeRead\<close> hooks and resolve with the data the hooks
  leave; \<open>all_items\<close> is the list \<open>filtered\<close> of \<open>all\<close> before the hooks.
\<close>

definition get_api :: "env \<Rightarrow> string \<Rightarrow> store \<Rightarrow> jsval outcome" where
  "get_api e i s =
     (if request_fails e ReqOpen then Pending
      else if request_fails e (ReqGet i) then Rejected (ReadRecordError i)
      else
        (case callHooks e BeforeRead (store_get i s) of
           None \<Rightarrow> Pending
         | Some (result, n) \<Rightarrow>
             Resolved (case result of
                None \<Rightarrow> JUndefined
              | Some r \<Rightarrow> if deleted r = Some True then JUndefined else data r)))"

definition all_items :: "string \<Rightarrow> store \<Rightarrow> IdbRecord list" where
  "all_items t s = filter (\<lambda>item. deleted item \<noteq> Some True) (filter (\<lambda>r. rec_type r = t) s)"

definition all_api :: "env \<Rightarrow> string \<Rightarrow> store \<Rightarrow> jsval list outcome" where
  "all_api e t s =
     (if request_fails e ReqOpen then Pending
      else if request_fails e (ReqGetAllType t) then Rejected (ReadTypeError t)
      else
        (case those (map (hooked e BeforeRead) (all_items t s)) of
           None \<Rightarrow> Pending
         | Some filtered \<Rightarrow> Resolved (map (\<lambda>item. spread (data (fst item))) filtered)))"

section \<open>Unsynced-write subscribers (idb.ts)\<close>

text \<open>
  \<open>subscribers\<close> is an object used as a dictionary: an association list in insertion order.
  \<open>now\<close> is the value of \<open>new Date().getTime()\<close> at the call. The handle that
  \<open>listenToUnsyncedChanges\<close> returns is the closure \<open>() => delete subscribers[id]\<close>: it is
  the key it closes over, and \<open>unsubscribe\<close> runs it.
\<close>

definition listenToUnsyncedChanges :: "nat \<Rightarrow> 'cb \<Rightarrow> (string \<times> 'cb) list
    \<Rightarrow> (string \<times> 'cb) list \<times> string" where
  "listenToUnsyncedChanges now callback subscribers =
     (let i = string_of_nat now in (AList.update i callback subscribers, i))"

definition unsubscribe :: "string \<Rightarrow> (string \<times> 'cb) list \<Rightarrow> (string \<times> 'cb) list" where
  "unsubscribe i subscribers = AList.delete i subscribers"

text \<open>The callbacks the timeout of \<open>notifyUnsyncedChanges\<close> calls: \<open>Object.values(subscribers)\<close>.\<close>

definition notified :: "(string \<times> 'cb) list \<Rightarrow> 'cb list" where
  "notified subscribers = map snd subscribers"

section \<open>Sync engine (\<open>WireStoreService\<close>, \<open>triggerSync\<close>)\<close>

record config =
  store_name :: string
  ns :: string

definition cursorKey :: "config \<Rightarrow> string" where
  "cursorKey cfg = ''wire-store:'' @ store_name cfg @ '':'' @ ns cfg @ '':sync-cursor''"

definition toUnsynced :: "IdbRecord \<Rightarrow> UnsyncedRecord" where
  "toUnsynced item =
     \<lparr>u_id = rec_id item,
      u_state = (if deleted item = Some True then Deleted else Updated),
      u_type = rec_type item,
      u_data = spread (data item)\<rparr>"

text \<open>\<open>localStorage.getItem(cursorKey) || undefined\<close>: a missing and an empty value are both undefined.\<close>

definition read_cursor :: "config \<Rightarrow> wire \<Rightarrow> string option" where
  "read_cursor cfg w =
     (case localStorage w (cursorKey cfg) of
        None \<Rightarrow> None
      | Some c \<Rightarrow> if c = [] then None else Some c)"

text \<open>
  The argument list of the call \<open>props.config.sync({ records: unsynced, namespace, syncCursor })\<close>.
\<close>

definition exchange_args :: "UnsyncedRecord list \<Rightarrow> string \<Rightarrow> string option \<Rightarrow> jsarg list" where
  "exchange_args unsynced_records nsp cursor =
     [ArgObject \<lparr>records = unsynced_records, namespace = nsp, syncCursor = cursor\<rparr>]"

text \<open>
  The argument list the specification describes: \<open>exchange(records, namespace, syncCursor?)\<close>.
\<close>

definition exchange_args_spec :: "UnsyncedRecord list \<Rightarrow> string \<Rightarrow> string option \<Rightarrow> jsarg list" where
  "exchange_args_spec unsynced_records nsp cursor =
     [ArgRecords unsynced_records, ArgString nsp,
      (case cursor of None \<Rightarrow> ArgUndefined | Some c \<Rightarrow> ArgString c)]"

text \<open>Lines 163 to 176 up to the call: the unsynced records and the cursor.\<close>

definition sync_collect :: "config \<Rightarrow> env \<Rightarrow> wire \<Rightarrow> jsarg list outcome" where
  "sync_collect cfg e w =
     (case getRawUnhookedUnsyncedRecords e (db w) of
        Resolved items \<Rightarrow>
          Resolved (exchange_args (map toUnsynced items) (ns cfg) (read_cursor cfg w))
      | Rejected err \<Rightarrow> Rejected err
      | Pending \<Rightarrow> Pending)"

text \<open>The arguments of the exchange call of a cycle that starts in \<open>w\<close>.\<close>

definition call_args :: "config \<Rightarrow> wire \<Rightarrow> jsarg list" where
  "call_args cfg w =
     exchange_args (map toUnsynced (unsynced_rows (db w))) (ns cfg) (read_cursor cfg w)"

definition toIdbRecord :: "SyncedRecord \<Rightarrow> IdbRecord" where
  "toIdbRecord r =
     \<lparr>rec_id = s_id r, rec_type = s_type r, deleted = None, unsynced = None, data = s_data r\<rparr>"

definition save_cursor :: "config \<Rightarrow> env \<Rightarrow> string option \<Rightarrow> wire \<Rightarrow> unit outcome \<times> wire" where
  "save_cursor cfg e updatedSyncCursor w =
     (case updatedSyncCursor of
        Some c \<Rightarrow>
          if setItem_fails e then (Rejected QuotaExceededError, w)
          else (Resolved (), w\<lparr>localStorage := (localStorage w)(cursorKey cfg \<mapsto> c)\<rparr>)
      | None \<Rightarrow> (Resolved (), w\<lparr>localStorage := (localStorage w)(cursorKey cfg := None)\<rparr>))"

text \<open>Lines 178 to 194: apply the response. \<open>updated\<close> and \<open>deleted\<close> are the two lists it builds.\<close>

definition updated :: "sync_response \<Rightarrow> IdbRecord list" where
  "updated resp = map toIdbRecord (filter (\<lambda>r. s_state r = Updated) (r_records resp))"

definition deleted_ids :: "sync_response \<Rightarrow> string list" where
  "deleted_ids resp = map s_id (filter (\<lambda>r. s_state r = Deleted) (r_records resp))"

definition sync_apply :: "config \<Rightarrow> env \<Rightarrow> sync_response \<Rightarrow> wire \<Rightarrow> unit outcome \<times> wire" where
  "sync_apply cfg e resp w =
     (let w0 = w\<lparr>trace := trace w @ [CallPut (updated resp)]\<rparr>
      in case put e (updated resp) (db w0) of
           (p, s1) \<Rightarrow>
             (case p of
                Rejected err \<Rightarrow> (Rejected err, w0\<lparr>db := s1\<rparr>)
              | Pending \<Rightarrow> (Pending, w0\<lparr>db := s1\<rparr>)
              | Resolved _ \<Rightarrow>
                  (let w1 = w0\<lparr>db := s1, trace := trace w0 @ [CallPurge (deleted_ids resp)]\<rparr>
                   in case purge e (deleted_ids resp) s1 of
                        (q, s2) \<Rightarrow>
                          (case q of
                             Rejected err \<Rightarrow> (Rejected err, w1\<lparr>db := s2\<rparr>)
                           | Pending \<Rightarrow> (Pending, w1\<lparr>db := s2\<rparr>)
                           | Resolved _ \<Rightarrow> save_cursor cfg e (r_syncCursor resp) (w1\<lparr>db := s2\<rparr>)))))"

text \<open>The \<open>finally\<close> block runs when the body returns or throws, not while it is pending.\<close>

definition release :: "unit outcome \<Rightarrow> wire \<Rightarrow> wire" where
  "release p w = (case p of Pending \<Rightarrow> w | _ \<Rightarrow> w\<lparr>syncing := False\<rparr>)"

text \<open>
  One call of \<open>triggerSync\<close> run to its end, the exchange function given as \<open>exch\<close>. The
  result is how the promise that \<open>triggerSync\<close> returns ends, which is also what
  \<open>store.sync()\<close> hands to its caller.
\<close>

definition triggerSync :: "config \<Rightarrow> env \<Rightarrow> (jsarg list \<Rightarrow> sync_response outcome) \<Rightarrow> wire
    \<Rightarrow> unit outcome \<times> wire" where
  "triggerSync cfg e exch w =
     (if syncing w then (Resolved (), w)
      else
        (let w1 = w\<lparr>syncing := True\<rparr> in
         case sync_collect cfg e w1 of
           Rejected err \<Rightarrow> (Rejected err, w1\<lparr>syncing := False\<rparr>)
         | Pending \<Rightarrow> (Pending, w1)
         | Resolved args \<Rightarrow>
             (let w2 = w1\<lparr>trace := trace w1 @ [CallExchange args]\<rparr> in
              case exch args of
                Rejected err \<Rightarrow> (Rejected err, w2\<lparr>syncing := False\<rparr>)
              | Pending \<Rightarrow> (Pending, w2)
              | Resolved resp \<Rightarrow>
                  (case sync_apply cfg e resp w2 of (p, w3) \<Rightarrow> (p, release p w3)))))"

subsection \<open>The triggers that discard the promise\<close>

text \<open>
  A subscriber of the notifier is a function that runs on the state and may throw. The
  timeout of \<open>notifyUnsyncedChanges\<close> calls every subscriber inside \<open>try\<close>/\<open>catch\<close> and logs
  what one throws with \<open>console.error\<close>: \<open>notify_timeout\<close> gives the state and the log it
  leaves.
\<close>

type_synonym callback = "wire \<Rightarrow> error + wire"

fun deliver :: "callback list \<Rightarrow> wire \<Rightarrow> error list \<Rightarrow> wire \<times> error list" where
  "deliver [] w logged = (w, logged)"
| "deliver (sub # subs) w logged =
     (case sub w of
        Inl err \<Rightarrow> deliver subs w (logged @ [err])
      | Inr w' \<Rightarrow> deliver subs w' logged)"

definition notify_timeout :: "(string \<times> callback) list \<Rightarrow> wire \<Rightarrow> wire \<times> error list" where
  "notify_timeout subscribers w = deliver (notified subscribers) w []"

text \<open>
  The subscriber that the service registers, \<open>() => { triggerSync() }\<close>. The body of
  \<open>onMount\<close> and the handler of \<open>setInterval\<close> are the same: they call \<open>triggerSync\<close>, take
  nothing from the promise it returns, and return.
\<close>

definition sync_callback :: "config \<Rightarrow> env \<Rightarrow> (jsarg list \<Rightarrow> sync_response outcome) \<Rightarrow> callback" where
  "sync_callback cfg e exch = (\<lambda>w. Inr (snd (triggerSync cfg e exch w)))"

subsection \<open>The cycle as events\<close>

text \<open>
  \<open>triggerSync\<close> is asynchronous: other code runs while it awaits. The events are a call of
  \<open>triggerSync\<close> (\<open>Trigger\<close>), the unsynced read settling, upon which the exchange is called
  (\<open>Collected\<close>), the exchange settling, upon which the response is applied (\<open>Settled\<close>), and
  local writes through the public API. Applying the response is taken as one step. The phase
  is the point the call in flight has reached; \<open>Hung\<close> is a call awaiting a promise that
  never settles. An event that does not fit the phase changes nothing.
\<close>

datatype phase = Idle | Collecting | Exchanging | Hung

datatype event =
    Trigger
  | Collected
  | Settled "error + sync_response"
  | LocalSet string string jsval
  | LocalDelete string "string list"

fun step :: "config \<Rightarrow> env \<Rightarrow> event \<Rightarrow> phase \<times> wire \<Rightarrow> phase \<times> wire" where
  "step cfg e Trigger (ph, w) =
     (if syncing w then (ph, w) else (Collecting, w\<lparr>syncing := True\<rparr>))"
| "step cfg e Collected (ph, w) =
     (if ph \<noteq> Collecting then (ph, w)
      else
        (case sync_collect cfg e w of
           Rejected err \<Rightarrow> (Idle, w\<lparr>syncing := False\<rparr>)
         | Pending \<Rightarrow> (Hung, w)
         | Resolved args \<Rightarrow> (Exchanging, w\<lparr>trace := trace w @ [CallExchange args]\<rparr>)))"
| "step cfg e (Settled r) (ph, w) =
     (if ph \<noteq> Exchanging then (ph, w)
      else
        (case r of
           Inl err \<Rightarrow> (Idle, w\<lparr>syncing := False\<rparr>)
         | Inr resp \<Rightarrow>
             (case sync_apply cfg e resp w of
                (p, w3) \<Rightarrow> (if p = Pending then Hung else Idle, release p w3))))"
| "step cfg e (LocalSet t i d) (ph, w) = (ph, snd (set_api e t i d w))"
| "step cfg e (LocalDelete t ids) (ph, w) = (ph, snd (softDelete e t ids w))"

fun run :: "config \<Rightarrow> env \<Rightarrow> event list \<Rightarrow> phase \<times> wire \<Rightarrow> phase \<times> wire" where
  "run cfg e [] m = m"
| "run cfg e (ev # evs) m = run cfg e evs (step cfg e ev m)"

definition is_exchange :: "call \<Rightarrow> bool" where
  "is_exchange c = (case c of CallExchange _ \<Rightarrow> True | _ \<Rightarrow> False)"

definition exchange_calls :: "wire \<Rightarrow> call list" where
  "exchange_calls w = filter is_exchange (trace w)"

definition is_settled :: "event \<Rightarrow> bool" where
  "is_settled ev = (case ev of Settled _ \<Rightarrow> True | _ \<Rightarrow> False)"

text \<open>
  An environment in which no IndexedDB request fails, and one in which a cycle that receives
  the response \<open>resp\<close> meets no failure at all: no request fails, the \<open>beforeSave\<close> hooks
  settle on the records to write, and \<open>localStorage.setItem\<close> does not throw.
\<close>

definition no_idb_errors :: "env \<Rightarrow> bool" where
  "no_idb_errors e = (\<forall>q. \<not> request_fails e q)"

definition healthy :: "env \<Rightarrow> sync_response \<Rightarrow> bool" where
  "healthy e resp =
     (no_idb_errors e \<and> \<not> setItem_fails e \<and>
      list_all (\<lambda>r. hooked e BeforeSave r \<noteq> None) (updated resp))"

section \<open>A concrete store\<close>

text \<open>
  The store \<open>todo\<close> of the end-to-end scenario: no hooks, nothing fails, the default
  namespace, and one locally written record \<open>"1"\<close> that is still unsynced.
\<close>

definition ex_env :: env where
  "ex_env = \<lparr>request_fails = (\<lambda>_. False), hooks = None, setItem_fails = False\<rparr>"

definition ex_cfg :: config where
  "ex_cfg = \<lparr>store_name = ''todo'', ns = []\<rparr>"

definition ex_data :: jsval where
  "ex_data = JObj [(''title'', JStr ''a''), (''done'', JBool False)]"

definition ex_empty :: wire where
  "ex_empty = \<lparr>db = [], localStorage = Map.empty, syncing = False, trace = [], notifications = 0\<rparr>"

definition ex_rec :: IdbRecord where
  "ex_rec = \<lparr>rec_id = ''1'', rec_type = ''todo'', deleted = None, unsynced = Some ''true'',
              data = ex_data\<rparr>"

definition ex_wire :: wire where
  "ex_wire = ex_empty\<lparr>db := [ex_rec], notifications := 1\<rparr>"

text \<open>Responses of the exchange: the record echoed as updated, and as deleted.\<close>

definition ex_echo :: sync_response where
  "ex_echo =
     \<lparr>r_records = [\<lparr>s_id = ''1'', s_state = Updated, s_type = ''todo'', s_data = ex_data\<rparr>],
      r_syncCursor = Some ''C1''\<rparr>"

definition ex_gone :: sync_response where
  "ex_gone =
     \<lparr>r_records = [\<lparr>s_id = ''1'', s_state = Deleted, s_type = ''todo'', s_data = JObj []\<rparr>,
                   \<lparr>s_id = ''9'', s_state = Deleted, s_type = ''todo'', s_data = JObj []\<rparr>],
      r_syncCursor = None\<rparr>"



section \<open>Store lemmas\<close>

lemma find_insort_key_other:
  "\<not> P x \<Longrightarrow> find P (insort_key f x xs) = find P xs"
  by (induction xs) auto

lemma find_insort_key_new:
  "P x \<Longrightarrow> \<forall>y \<in> set xs. \<not> P y \<Longrightarrow> find P (insort_key f x xs) = Some x"
  by (induction xs) auto

lemma store_get_delete:
  "store_get k (store_delete i s) = (if k = i then None else store_get k s)"
  unfolding store_get_def store_delete_def
  by (induction s) auto

lemma store_get_put:
  "store_get k (store_put r s) = (if rec_id r = k then Some r else store_get k s)"
proof (cases "rec_id r = k")
  case True
  have "\<forall>y \<in> set (store_delete (rec_id r) s). \<not> rec_id y = k"
    using True by (simp add: store_delete_def)
  then show ?thesis
    using True unfolding store_get_def store_put_def
    by (simp add: find_insort_key_new)
next
  case False
  then show ?thesis
    using store_get_delete [of k "rec_id r" s]
    unfolding store_get_def store_put_def
    by (simp add: find_insort_key_other)
qed

lemma find_app:
  "find P (xs @ ys) = (case find P xs of None \<Rightarrow> find P ys | Some x \<Rightarrow> Some x)"
  by (induction xs) auto

lemma store_get_fold_delete:
  "store_get k (fold store_delete ids s) = (if k \<in> set ids then None else store_get k s)"
  by (induction ids arbitrary: s) (auto simp: store_get_delete)

lemma store_get_fold_put:
  "store_get k (fold store_put rs s) =
     (case find (\<lambda>r. rec_id r = k) (rev rs) of None \<Rightarrow> store_get k s | Some r \<Rightarrow> Some r)"
proof (induction rs arbitrary: s)
  case Nil
  show ?case by simp
next
  case (Cons r rs)
  show ?case
    by (cases "find (\<lambda>r. rec_id r = k) (rev rs)")
       (simp_all add: Cons.IH store_get_put find_app)
qed


section \<open>Promise.all\<close>

lemma settled_Resolved: "settled p = Resolved u \<longleftrightarrow> (\<exists>xs. p = Resolved xs)"
  by (cases p) (auto simp: settled_def)

lemma promise_all_map_fun: "promise_all (map (\<lambda>x. Resolved (f x)) xs) = Resolved (map f xs)"
  by (induction xs) auto

lemma promise_all_pending:
  "promise_all (ps @ map (\<lambda>_. Pending) xs) =
     (if xs = [] then promise_all ps
      else (case promise_all ps of Rejected err \<Rightarrow> Rejected err | _ \<Rightarrow> Pending))"
proof (induction ps rule: promise_all.induct)
  case 1
  show ?case by (induction xs) (auto split: outcome.splits)
qed (auto split: outcome.splits)

lemma promise_all_Rejected_mem:
  "Rejected err \<in> set ps \<Longrightarrow> \<exists>err'. promise_all ps = Rejected err'"
  by (induction ps rule: promise_all.induct) (auto split: outcome.splits)

section \<open>What the hooks leave\<close>

lemma hooked_fields:
  "hooked e st r = Some (r', n) \<Longrightarrow>
     rec_id r' = rec_id r \<and> rec_type r' = rec_type r \<and> deleted r' = deleted r \<and>
     unsynced r' = unsynced r"
  by (auto simp: hooked_def callHooks_def split: option.splits if_splits prod.splits)

lemma hooked_no_hooks: "hooks e = None \<Longrightarrow> hooked e st r = Some (r, 0)"
  by (simp add: hooked_def callHooks_def)

lemma hooked_deleted: "deleted r = Some True \<Longrightarrow> hooked e st r = Some (r, 0)"
  by (simp add: hooked_def callHooks_def split: option.splits)

lemma set_map_filter: "set (List.map_filter f xs) = {y. \<exists>x \<in> set xs. f x = Some y}"
  by (induction xs) (auto split: option.splits)

lemma set_put_order:
  "set (put_order e rs) = {r'. \<exists>r \<in> set rs. \<exists>n. hooked e BeforeSave r = Some (r', n)}"
  by (auto simp: put_order_def set_map_filter image_iff) blast+

lemma put_order_ids: "x \<in> set (put_order e rs) \<Longrightarrow> rec_id x \<in> rec_id ` set rs"
  by (auto simp: set_put_order dest: hooked_fields)

lemma put_pending_empty: "put_pending e rs = [] \<longleftrightarrow> (\<forall>r \<in> set rs. hooked e BeforeSave r \<noteq> None)"
  by (auto simp: put_pending_def filter_empty_conv)

lemma put_order_no_hooks:
  assumes "hooks e = None"
  shows "put_order e rs = rs"
proof -
  have "List.map_filter (hooked e BeforeSave) rs = map (\<lambda>r. (r, 0)) rs"
    by (induction rs) (simp_all add: hooked_no_hooks [OF assms])
  moreover have "sort_key snd (map (\<lambda>r. (r, 0::nat)) rs) = map (\<lambda>r. (r, 0)) rs"
    by (rule sort_key_id_if_sorted) (simp add: comp_def sorted_replicate map_replicate_const)
  ultimately show ?thesis by (simp add: put_order_def comp_def)
qed

lemma put_pending_no_hooks: "hooks e = None \<Longrightarrow> put_pending e rs = []"
  by (simp add: put_pending_empty hooked_no_hooks)

section \<open>The store after \<open>put\<close> and \<open>purge\<close>\<close>

lemma run_all_fst_Cons:
  "fst (run_all f (x # xs) s) = fst (f x s) # fst (run_all f xs (snd (f x s)))"
  by (simp split: prod.splits)

lemma run_all_put_Resolved:
  "run_all (put_request e) rs s = (ps, s1) \<Longrightarrow> promise_all ps = Resolved xs
    \<Longrightarrow> s1 = fold store_put rs s"
proof (induction rs arbitrary: s ps xs s1)
  case Nil
  then show ?case by simp
next
  case (Cons r rs)
  obtain p s0 where one: "put_request e r s = (p, s0)" by (cases "put_request e r s")
  obtain qs s2 where rest: "run_all (put_request e) rs s0 = (qs, s2)"
    by (cases "run_all (put_request e) rs s0")
  from Cons.prems(1) one rest have ps: "ps = p # qs" and s1: "s1 = s2" by auto
  from Cons.prems(2) ps obtain x ys where p: "p = Resolved x" and qs: "promise_all qs = Resolved ys"
    by (cases p; cases "promise_all qs") auto
  from one p have "s0 = store_put r s"
    by (auto simp: put_request_def split: if_splits)
  with Cons.IH [OF rest qs] s1 show ?case by simp
qed

lemma run_all_delete_Resolved:
  "run_all (delete_one e) ids s = (ps, s1) \<Longrightarrow> promise_all ps = Resolved xs
    \<Longrightarrow> s1 = fold store_delete ids s"
proof (induction ids arbitrary: s ps xs s1)
  case Nil
  then show ?case by simp
next
  case (Cons i ids)
  obtain p s0 where one: "delete_one e i s = (p, s0)" by (cases "delete_one e i s")
  obtain qs s2 where rest: "run_all (delete_one e) ids s0 = (qs, s2)"
    by (cases "run_all (delete_one e) ids s0")
  from Cons.prems(1) one rest have ps: "ps = p # qs" and s1: "s1 = s2" by auto
  from Cons.prems(2) ps obtain x ys where p: "p = Resolved x" and qs: "promise_all qs = Resolved ys"
    by (cases p; cases "promise_all qs") auto
  from one p have "s0 = store_delete i s"
    by (auto simp: delete_one_def split: if_splits)
  with Cons.IH [OF rest qs] s1 show ?case by simp
qed

text \<open>A \<open>put\<close> that resolves has issued a request for every record.\<close>

lemma put_Resolved:
  assumes "put e rs s = (Resolved u, s1)"
  shows "s1 = fold store_put (put_order e rs) s \<and> put_pending e rs = []"
proof (cases "rs = []")
  case True
  with assms show ?thesis by (simp add: put_def put_order_def put_pending_def)
next
  case False
  obtain ps s2 where r: "run_all (put_request e) (put_order e rs) s = (ps, s2)"
    by (cases "run_all (put_request e) (put_order e rs) s")
  from assms False r
  have a: "settled (promise_all (ps @ map (\<lambda>_. Pending) (put_pending e rs))) = Resolved u"
    and s: "s1 = s2"
    by (auto simp: put_def split: if_splits)
  from a have pe: "put_pending e rs = []"
    by (auto simp: settled_Resolved promise_all_pending split: if_splits outcome.splits)
  with a obtain xs where "promise_all ps = Resolved xs"
    by (auto simp: settled_Resolved)
  from run_all_put_Resolved [OF r this] s pe show ?thesis by simp
qed

lemma purge_Resolved: "purge e ids s = (Resolved u, s1) \<Longrightarrow> s1 = fold store_delete ids s"
  by (auto simp: purge_def settled_Resolved split: if_splits prod.splits outcome.splits
      dest: run_all_delete_Resolved)

lemma run_all_put_ok:
  "\<forall>r \<in> set rs. \<not> request_fails e (ReqPut (rec_id r))
    \<Longrightarrow> run_all (put_request e) rs s = (map (\<lambda>_. Resolved ()) rs, fold store_put rs s)"
  by (induction rs arbitrary: s) (auto simp: put_request_def)

lemma run_all_delete_ok:
  "\<forall>i \<in> set ids. \<not> request_fails e (ReqDelete i)
    \<Longrightarrow> run_all (delete_one e) ids s = (map (\<lambda>_. Resolved ()) ids, fold store_delete ids s)"
  by (induction ids arbitrary: s) (auto simp: delete_one_def)

lemma put_ok:
  assumes "\<not> request_fails e ReqOpen"
    and "\<forall>r \<in> set rs. hooked e BeforeSave r \<noteq> None \<and> \<not> request_fails e (ReqPut (rec_id r))"
  shows "put e rs s = (Resolved (), fold store_put (put_order e rs) s)"
proof -
  from assms(2) have pe: "put_pending e rs = []" by (simp add: put_pending_empty)
  have "\<forall>x \<in> set (put_order e rs). \<not> request_fails e (ReqPut (rec_id x))"
    using assms(2) by (auto dest!: put_order_ids)
  from run_all_put_ok [OF this] assms(1) pe show ?thesis
    by (simp add: put_def promise_all_map_fun settled_def)
       (simp add: put_order_def)
qed

lemma reads_ok:
  "\<not> request_fails e ReqOpen \<Longrightarrow> \<forall>i \<in> set ids. \<not> request_fails e (ReqGet i)
    \<Longrightarrow> map (\<lambda>i. getRawUnhookedRecord e i s) ids = map (\<lambda>i. Resolved (store_get i s)) ids"
  by (simp add: getRawUnhookedRecord_def)

lemma purge_ok:
  "\<not> request_fails e ReqOpen
    \<Longrightarrow> \<forall>i \<in> set ids. \<not> request_fails e (ReqGet i) \<and> \<not> request_fails e (ReqDelete i)
    \<Longrightarrow> purge e ids s = (Resolved (), fold store_delete ids s)"
  by (simp add: purge_def reads_ok run_all_delete_ok promise_all_map_fun settled_def)

section \<open>One sync cycle\<close>

lemma sync_collect_syncing [simp]:
  "sync_collect cfg e (w\<lparr>syncing := b\<rparr>) = sync_collect cfg e w"
  by (simp add: sync_collect_def read_cursor_def split: outcome.splits)

lemma sync_collect_ok:
  "\<not> request_fails e ReqOpen \<Longrightarrow> \<not> request_fails e ReqGetAllUnsynced
    \<Longrightarrow> sync_collect cfg e w =
        Resolved (call_args cfg w)"
  by (simp add: sync_collect_def getRawUnhookedUnsyncedRecords_def call_args_def)

lemma sync_collect_Resolved:
  "sync_collect cfg e w = Resolved args
    \<Longrightarrow> args = call_args cfg w"
  by (auto simp: sync_collect_def getRawUnhookedUnsyncedRecords_def call_args_def split: if_splits)

lemma save_cursor_Resolved:
  "save_cursor cfg e c w = (Resolved u, w')
    \<Longrightarrow> w' = w\<lparr>localStorage := (localStorage w)(cursorKey cfg := c)\<rparr>"
  by (auto simp: save_cursor_def split: option.splits if_splits)

lemma save_cursor_ok:
  "\<not> setItem_fails e
    \<Longrightarrow> save_cursor cfg e c w = (Resolved (), w\<lparr>localStorage := (localStorage w)(cursorKey cfg := c)\<rparr>)"
  by (auto simp: save_cursor_def split: option.splits)

text \<open>The state a cycle leaves when every step of applying \<open>resp\<close> succeeds.\<close>

lemma sync_apply_Resolved:
  assumes "sync_apply cfg e resp w = (Resolved u, w')"
  shows "w' = w\<lparr>db := fold store_delete (deleted_ids resp)
                          (fold store_put (put_order e (updated resp)) (db w)),
                 localStorage := (localStorage w)(cursorKey cfg := r_syncCursor resp),
                 trace := trace w @ [CallPut (updated resp), CallPurge (deleted_ids resp)]\<rparr> \<and>
         put_pending e (updated resp) = []"
proof -
  obtain p s1 where p: "put e (updated resp) (db w) = (p, s1)"
    by (cases "put e (updated resp) (db w)")
  obtain q s2 where q: "purge e (deleted_ids resp) s1 = (q, s2)"
    by (cases "purge e (deleted_ids resp) s1")
  from assms p have pr: "p = Resolved ()"
    by (cases p) (auto simp: sync_apply_def Let_def)
  from assms p q pr have qr: "q = Resolved ()"
    by (cases q) (auto simp: sync_apply_def Let_def)
  from p pr have s1: "s1 = fold store_put (put_order e (updated resp)) (db w)"
    and pe: "put_pending e (updated resp) = []"
    by (auto dest: put_Resolved)
  from q qr have s2: "s2 = fold store_delete (deleted_ids resp) s1"
    by (auto dest: purge_Resolved)
  from assms p q pr qr
  have "save_cursor cfg e (r_syncCursor resp)
          (w\<lparr>trace := trace w @ [CallPut (updated resp)], db := s1,
             trace := (trace w @ [CallPut (updated resp)]) @ [CallPurge (deleted_ids resp)],
             db := s2\<rparr>) = (Resolved u, w')"
    by (simp add: sync_apply_def Let_def)
  from save_cursor_Resolved [OF this] s1 s2 pe show ?thesis by simp
qed

lemma sync_apply_ok:
  assumes "healthy e resp"
  shows "sync_apply cfg e resp w =
     (Resolved (),
      w\<lparr>db := fold store_delete (deleted_ids resp) (fold store_put (put_order e (updated resp)) (db w)),
        localStorage := (localStorage w)(cursorKey cfg := r_syncCursor resp),
        trace := trace w @ [CallPut (updated resp), CallPurge (deleted_ids resp)]\<rparr>)"
proof -
  from assms have nf: "\<And>q. \<not> request_fails e q" and si: "\<not> setItem_fails e"
    and hk: "\<forall>r \<in> set (updated resp). hooked e BeforeSave r \<noteq> None"
    by (auto simp: healthy_def no_idb_errors_def list_all_iff)
  have p: "put e (updated resp) (db w) =
      (Resolved (), fold store_put (put_order e (updated resp)) (db w))"
    using nf hk by (intro put_ok) auto
  have q: "purge e (deleted_ids resp) s = (Resolved (), fold store_delete (deleted_ids resp) s)" for s
    using nf by (intro purge_ok) auto
  show ?thesis
    by (simp add: sync_apply_def Let_def p q save_cursor_ok [OF si])
qed

text \<open>The state a completed cycle leaves.\<close>

lemma triggerSync_Resolved:
  assumes idle: "\<not> syncing w"
    and res: "triggerSync cfg e exch w = (Resolved u, w')"
  shows "\<exists>resp. exch (call_args cfg w) = Resolved resp \<and>
           put_pending e (updated resp) = [] \<and>
           w' = w\<lparr>db := fold store_delete (deleted_ids resp)
                            (fold store_put (put_order e (updated resp)) (db w)),
                  localStorage := (localStorage w)(cursorKey cfg := r_syncCursor resp),
                  trace := trace w @ [CallExchange (call_args cfg w), CallPut (updated resp),
                                     CallPurge (deleted_ids resp)]\<rparr>"
proof -
  from idle res obtain args where c: "sync_collect cfg e w = Resolved args"
    by (cases "sync_collect cfg e w") (auto simp: triggerSync_def Let_def)
  then have args: "args = call_args cfg w" by (rule sync_collect_Resolved)
  from idle res c obtain resp where x: "exch args = Resolved resp"
    by (cases "exch args") (auto simp: triggerSync_def Let_def)
  let ?w2 = "w\<lparr>syncing := True, trace := trace w @ [CallExchange args]\<rparr>"
  obtain p w3 where a: "sync_apply cfg e resp ?w2 = (p, w3)"
    by (cases "sync_apply cfg e resp ?w2")
  from idle res c x a have p: "p = Resolved u" and w': "w' = release p w3"
    by (auto simp: triggerSync_def Let_def)
  from sync_apply_Resolved [OF a [unfolded p]] w' p idle args x show ?thesis
    by (auto simp: release_def)
qed

lemma triggerSync_ok:
  assumes idle: "\<not> syncing w"
    and ok: "healthy e resp"
    and x: "exch (call_args cfg w) = Resolved resp"
  shows "triggerSync cfg e exch w =
     (Resolved (),
      w\<lparr>db := fold store_delete (deleted_ids resp) (fold store_put (put_order e (updated resp)) (db w)),
        localStorage := (localStorage w)(cursorKey cfg := r_syncCursor resp),
        trace := trace w @ [CallExchange (call_args cfg w), CallPut (updated resp),
                           CallPurge (deleted_ids resp)]\<rparr>)"
proof -
  from ok have "\<not> request_fails e ReqOpen" "\<not> request_fails e ReqGetAllUnsynced"
    by (auto simp: healthy_def no_idb_errors_def)
  then have c: "sync_collect cfg e w = Resolved (call_args cfg w)"
    by (rule sync_collect_ok)
  show ?thesis
    using idle by (simp add: triggerSync_def Let_def c x sync_apply_ok [OF ok] release_def)
qed

lemma triggerSync_exchange_Rejected:
  assumes idle: "\<not> syncing w"
    and c: "sync_collect cfg e w = Resolved args"
    and x: "exch args = Rejected err"
  shows "triggerSync cfg e exch w = (Rejected err, w\<lparr>trace := trace w @ [CallExchange args]\<rparr>)"
  using idle by (simp add: triggerSync_def Let_def c x)

section \<open>Local writes\<close>

lemma put_single:
  "put e [r] s =
     (if request_fails e ReqOpen then (Rejected OpenError, s)
      else (case hooked e BeforeSave r of
              None \<Rightarrow> (Pending, s)
            | Some (r', n) \<Rightarrow> put_request e r' s))"
proof (cases "hooked e BeforeSave r")
  case None
  then show ?thesis by (simp add: put_def put_order_def put_pending_def settled_def)
next
  case (Some a)
  then show ?thesis
    by (cases a; cases "fst (put_request e (fst a) s)"; cases "put_request e (fst a) s")
       (auto simp: put_def put_order_def put_pending_def settled_def)
qed

lemma hooked_tombstone [simp]: "hooked e st (tombstone t i) = Some (tombstone t i, 0)"
  by (simp add: hooked_deleted tombstone_def)

lemma callHooks_tombstone [simp]:
  "callHooks e st (Some (tombstone t i)) = Some (Some (tombstone t i), 0)"
  by (simp add: callHooks_def tombstone_def split: option.splits)

lemma put_tombstone_ok:
  "\<not> request_fails e ReqOpen \<Longrightarrow> \<not> request_fails e (ReqPut i)
    \<Longrightarrow> put e [tombstone t i] s = (Resolved (), store_put (tombstone t i) s)"
  by (simp add: put_single put_request_def) (simp add: tombstone_def)

lemma run_all_tombstones_ok:
  "\<not> request_fails e ReqOpen \<Longrightarrow> \<forall>i \<in> set ids. \<not> request_fails e (ReqPut i)
    \<Longrightarrow> run_all (\<lambda>i. put e [tombstone t i]) ids s =
          (map (\<lambda>_. Resolved ()) ids, fold store_put (map (tombstone t) ids) s)"
  by (induction ids arbitrary: s) (auto simp: put_tombstone_ok)

lemma softDelete_ok:
  assumes "\<not> request_fails e ReqOpen" and "\<forall>i \<in> set ids. \<not> request_fails e (ReqPut i)"
    and "ids \<noteq> []"
  shows "softDelete e t ids w =
     (Resolved (), notifyUnsyncedChanges (w\<lparr>db := fold store_put (map (tombstone t) ids) (db w)\<rparr>))"
  using assms(3)
  by (simp add: softDelete_def run_all_tombstones_ok [OF assms(1,2)] promise_all_map_fun)

lemma find_Some_set: "find P xs = Some x \<Longrightarrow> P x \<and> x \<in> set xs"
  by (induction xs) (auto split: if_splits)

lemma find_rev_tombstones:
  "i \<in> set ids \<Longrightarrow> find (\<lambda>r. rec_id r = i) (rev (map (tombstone t) ids)) = Some (tombstone t i)"
proof -
  assume mem: "i \<in> set ids"
  let ?xs = "rev (map (tombstone t) ids)"
  from mem have "tombstone t i \<in> set ?xs" by simp
  moreover have "rec_id (tombstone t i) = i" by (simp add: tombstone_def)
  ultimately have "find (\<lambda>r. rec_id r = i) ?xs \<noteq> None"
    by (auto simp: find_None_iff)
  then obtain x where x: "find (\<lambda>r. rec_id r = i) ?xs = Some x" by auto
  then have "x \<in> set ?xs" and "rec_id x = i"
    by (auto dest: find_Some_set)
  then have "x = tombstone t i" by (auto simp: tombstone_def)
  with x show ?thesis by simp
qed

lemma store_get_tombstones:
  "i \<in> set ids \<Longrightarrow> store_get i (fold store_put (map (tombstone t) ids) s) = Some (tombstone t i)"
  by (simp add: store_get_fold_put find_rev_tombstones)

lemma set_api_ok:
  assumes "JSON_roundtrip d = Inr v"
    and "\<not> request_fails e ReqOpen" and "\<not> request_fails e (ReqPut i)"
    and h: "hooked e BeforeSave
           \<lparr>rec_id = i, rec_type = t, deleted = None, unsynced = Some ''true'', data = v\<rparr>
           = Some (r', n)"
  shows "set_api e t i d w = (Resolved (), notifyUnsyncedChanges (w\<lparr>db := store_put r' (db w)\<rparr>))"
  using assms hooked_fields [OF h] by (simp add: set_api_def put_single put_request_def)

lemma db_notify [simp]: "db (notifyUnsyncedChanges w) = db w"
  by (simp add: notifyUnsyncedChanges_def)

section \<open>The exchange calls of a cycle\<close>

lemma save_cursor_trace [simp]:
  "trace (snd (save_cursor cfg e c w)) = trace w"
  "syncing (snd (save_cursor cfg e c w)) = syncing w"
  by (simp_all add: save_cursor_def split: option.splits)

lemma sync_apply_trace:
  "\<exists>cs. trace (snd (sync_apply cfg e resp w)) = trace w @ cs \<and> filter is_exchange cs = []"
proof -
  obtain p s1 where p: "put e (updated resp) (db w) = (p, s1)"
    by (cases "put e (updated resp) (db w)")
  obtain q s2 where q: "purge e (deleted_ids resp) s1 = (q, s2)"
    by (cases "purge e (deleted_ids resp) s1")
  show ?thesis
  proof (cases p)
    case (Resolved u)
    show ?thesis
    proof (cases q)
      case (Resolved u')
      with \<open>p = Resolved u\<close> p q
      have "trace (snd (sync_apply cfg e resp w)) =
              trace w @ [CallPut (updated resp), CallPurge (deleted_ids resp)]"
        by (simp add: sync_apply_def Let_def)
      then show ?thesis by (simp add: is_exchange_def)
    next
      case (Rejected err)
      with \<open>p = Resolved u\<close> p q
      have "trace (snd (sync_apply cfg e resp w)) =
              trace w @ [CallPut (updated resp), CallPurge (deleted_ids resp)]"
        by (simp add: sync_apply_def Let_def)
      then show ?thesis by (simp add: is_exchange_def)
    next
      case Pending
      with \<open>p = Resolved u\<close> p q
      have "trace (snd (sync_apply cfg e resp w)) =
              trace w @ [CallPut (updated resp), CallPurge (deleted_ids resp)]"
        by (simp add: sync_apply_def Let_def)
      then show ?thesis by (simp add: is_exchange_def)
    qed
  next
    case (Rejected err)
    with p have "trace (snd (sync_apply cfg e resp w)) = trace w @ [CallPut (updated resp)]"
      by (simp add: sync_apply_def Let_def)
    then show ?thesis by (simp add: is_exchange_def)
  next
    case Pending
    with p have "trace (snd (sync_apply cfg e resp w)) = trace w @ [CallPut (updated resp)]"
      by (simp add: sync_apply_def Let_def)
    then show ?thesis by (simp add: is_exchange_def)
  qed
qed

lemma sync_apply_exchange_calls [simp]:
  "exchange_calls (snd (sync_apply cfg e resp w)) = exchange_calls w"
  using sync_apply_trace [of cfg e resp w] by (auto simp: exchange_calls_def)

lemma sync_apply_syncing [simp]:
  "syncing (snd (sync_apply cfg e resp w)) = syncing w"
  by (cases "put e (updated resp) (db w)"; cases "fst (put e (updated resp) (db w))";
      cases "purge e (deleted_ids resp) (snd (put e (updated resp) (db w)))";
      cases "fst (purge e (deleted_ids resp) (snd (put e (updated resp) (db w))))")
     (simp_all add: sync_apply_def Let_def)

lemma exchange_calls_release [simp]: "exchange_calls (release p w) = exchange_calls w"
  by (cases p) (simp_all add: release_def exchange_calls_def)

lemma exchange_calls_upd [simp]:
  "exchange_calls (w\<lparr>syncing := b\<rparr>) = exchange_calls w"
  "exchange_calls (w\<lparr>db := s\<rparr>) = exchange_calls w"
  "exchange_calls (w\<lparr>localStorage := l\<rparr>) = exchange_calls w"
  "exchange_calls (w\<lparr>notifications := n\<rparr>) = exchange_calls w"
  "exchange_calls (w\<lparr>trace := trace w @ [CallExchange args]\<rparr>) = exchange_calls w @ [CallExchange args]"
  by (simp_all add: exchange_calls_def is_exchange_def)

lemma triggerSync_exchange_calls:
  assumes "\<not> syncing w" and c: "sync_collect cfg e w = Resolved args"
  shows "exchange_calls (snd (triggerSync cfg e exch w)) = exchange_calls w @ [CallExchange args]"
proof (cases "exch args")
  case (Resolved resp)
  obtain p w3 where a: "sync_apply cfg e resp (w\<lparr>syncing := True, trace := trace w @ [CallExchange args]\<rparr>) = (p, w3)"
    by (cases "sync_apply cfg e resp (w\<lparr>syncing := True, trace := trace w @ [CallExchange args]\<rparr>)")
  have "exchange_calls w3 = exchange_calls w @ [CallExchange args]"
    using sync_apply_exchange_calls [of cfg e resp "w\<lparr>syncing := True, trace := trace w @ [CallExchange args]\<rparr>"]
    by (simp add: a exchange_calls_def is_exchange_def)
  then show ?thesis
    using assms Resolved a by (simp add: triggerSync_def Let_def)
next
  case (Rejected err)
  then show ?thesis using assms by (simp add: triggerSync_def Let_def exchange_calls_def is_exchange_def)
next
  case Pending
  then show ?thesis using assms by (simp add: triggerSync_def Let_def exchange_calls_def is_exchange_def)
qed

section \<open>Failing requests and rejecting hooks\<close>

lemma run_all_put_fails:
  "r \<in> set rs \<Longrightarrow> request_fails e (ReqPut (rec_id r))
    \<Longrightarrow> Rejected UpdateError \<in> set (fst (run_all (put_request e) rs s))"
  by (induction rs arbitrary: s)
     (auto simp: run_all_fst_Cons put_request_def simp del: run_all.simps)

lemma run_all_delete_fails:
  "i \<in> set ids \<Longrightarrow> request_fails e (ReqDelete i)
    \<Longrightarrow> Rejected DeleteError \<in> set (fst (run_all (delete_one e) ids s))"
  by (induction ids arbitrary: s) (auto simp: run_all_fst_Cons delete_one_def simp del: run_all.simps)

lemma put_request_fails:
  assumes "\<not> request_fails e ReqOpen" and "r \<in> set rs"
    and "hooked e BeforeSave r \<noteq> None" and "request_fails e (ReqPut (rec_id r))"
  shows "\<exists>err. fst (put e rs s) = Rejected err"
proof -
  from assms(3) obtain r' n where h: "hooked e BeforeSave r = Some (r', n)" by auto
  with assms(2) have "r' \<in> set (put_order e rs)" by (auto simp: set_put_order)
  moreover from hooked_fields [OF h] assms(4) have "request_fails e (ReqPut (rec_id r'))" by simp
  ultimately have "Rejected UpdateError \<in> set (fst (run_all (put_request e) (put_order e rs) s))"
    by (rule run_all_put_fails)
  then have "Rejected UpdateError \<in>
      set (fst (run_all (put_request e) (put_order e rs) s) @ map (\<lambda>_. Pending) (put_pending e rs))"
    by simp
  from promise_all_Rejected_mem [OF this] obtain err
    where "promise_all (fst (run_all (put_request e) (put_order e rs) s) @
             map (\<lambda>_. Pending) (put_pending e rs)) = Rejected err" ..
  with assms(1,2) show ?thesis
    by (cases "run_all (put_request e) (put_order e rs) s") (auto simp: put_def settled_def)
qed

lemma purge_request_fails:
  assumes op: "\<not> request_fails e ReqOpen" and i: "i \<in> set ids"
    and f: "request_fails e (ReqGet i) \<or> request_fails e (ReqDelete i)"
  shows "\<exists>err. fst (purge e ids s) = Rejected err"
proof (cases "\<forall>j \<in> set ids. \<not> request_fails e (ReqGet j)")
  case True
  with i f have d: "request_fails e (ReqDelete i)" by auto
  from promise_all_Rejected_mem [OF run_all_delete_fails [OF i d, of s]]
  obtain err where "promise_all (fst (run_all (delete_one e) ids s)) = Rejected err" ..
  with op i show ?thesis
    by (cases "run_all (delete_one e) ids s")
       (auto simp: purge_def settled_def reads_ok [OF op True] promise_all_map_fun)
next
  case False
  then obtain j where j: "j \<in> set ids" "request_fails e (ReqGet j)" by auto
  with op have "Rejected (ReadRecordError j) \<in> set (map (\<lambda>i. getRawUnhookedRecord e i s) ids)"
    by (auto simp: getRawUnhookedRecord_def image_iff)
  from promise_all_Rejected_mem [OF this] obtain err
    where "promise_all (map (\<lambda>i. getRawUnhookedRecord e i s) ids) = Rejected err" ..
  with op i show ?thesis by (auto simp: purge_def)
qed

text \<open>
  A \<open>beforeSave\<close> hook that throws or rejects does so inside the asynchronous executor of
  the promise that \<open>put\<close> awaits: that promise never settles.
\<close>

lemma put_hook_rejection_pending:
  "\<not> request_fails e ReqOpen \<Longrightarrow> hooked e BeforeSave r = None \<Longrightarrow> put e [r] s = (Pending, s)"
  by (simp add: put_single)

lemma put_open_fails:
  "request_fails e ReqOpen \<Longrightarrow> rs \<noteq> [] \<Longrightarrow> put e rs s = (Rejected OpenError, s)"
  by (simp add: put_def)

lemma sync_apply_db_only:
  "fst (sync_apply cfg e resp (w\<lparr>syncing := b, trace := tr\<rparr>)) = fst (sync_apply cfg e resp w)"
  by (cases "put e (updated resp) (db w)"; cases "fst (put e (updated resp) (db w))";
      cases "purge e (deleted_ids resp) (snd (put e (updated resp) (db w)))";
      cases "fst (purge e (deleted_ids resp) (snd (put e (updated resp) (db w))))")
     (simp_all add: sync_apply_def Let_def save_cursor_def split: option.splits)

lemma triggerSync_collect_Rejected:
  "\<not> syncing w \<Longrightarrow> sync_collect cfg e w = Rejected err
    \<Longrightarrow> triggerSync cfg e exch w = (Rejected err, w)"
  by (simp add: triggerSync_def Let_def)

lemma triggerSync_apply_Rejected:
  assumes "\<not> syncing w" and "sync_collect cfg e w = Resolved args"
    and "exch args = Resolved resp" and "fst (sync_apply cfg e resp w) = Rejected err"
  shows "fst (triggerSync cfg e exch w) = Rejected err \<and> \<not> syncing (snd (triggerSync cfg e exch w))"
proof -
  let ?w2 = "w\<lparr>syncing := True, trace := trace w @ [CallExchange args]\<rparr>"
  obtain p w3 where a: "sync_apply cfg e resp ?w2 = (p, w3)"
    by (cases "sync_apply cfg e resp ?w2")
  with assms(4) have p: "p = Rejected err"
    using sync_apply_db_only [where w = w and b = True and tr = "trace w @ [CallExchange args]"
        and cfg = cfg and e = e and resp = resp] by simp
  show ?thesis
    using assms(1-3) a p by (simp add: triggerSync_def Let_def release_def)
qed

lemma sync_apply_put_fails:
  assumes "\<not> request_fails e ReqOpen" and "r \<in> set (updated resp)"
    and "hooked e BeforeSave r \<noteq> None" and "request_fails e (ReqPut (rec_id r))"
  shows "\<exists>err. fst (sync_apply cfg e resp w) = Rejected err"
proof -
  from put_request_fails [OF assms, where s = "db w"] obtain err
    where "fst (put e (updated resp) (db w)) = Rejected err" ..
  then show ?thesis
    by (cases "put e (updated resp) (db w)") (auto simp: sync_apply_def Let_def)
qed

lemma sync_apply_purge_fails:
  assumes "fst (put e (updated resp) (db w)) = Resolved ()"
    and "\<not> request_fails e ReqOpen" and "i \<in> set (deleted_ids resp)"
    and "request_fails e (ReqGet i) \<or> request_fails e (ReqDelete i)"
  shows "\<exists>err. fst (sync_apply cfg e resp w) = Rejected err"
proof -
  obtain s1 where p: "put e (updated resp) (db w) = (Resolved (), s1)"
    using assms(1) by (cases "put e (updated resp) (db w)") auto
  from purge_request_fails [OF assms(2-4), of s1] obtain err
    where "fst (purge e (deleted_ids resp) s1) = Rejected err" ..
  then show ?thesis
    by (cases "purge e (deleted_ids resp) s1") (auto simp: sync_apply_def Let_def p)
qed

lemma sync_apply_cursor_fails:
  assumes "no_idb_errors e" and "list_all (\<lambda>r. hooked e BeforeSave r \<noteq> None) (updated resp)"
    and "setItem_fails e" and "r_syncCursor resp = Some c"
  shows "fst (sync_apply cfg e resp w) = Rejected QuotaExceededError"
proof -
  from assms(1) have nf: "\<And>q. \<not> request_fails e q" by (simp add: no_idb_errors_def)
  have p: "put e (updated resp) (db w) =
      (Resolved (), fold store_put (put_order e (updated resp)) (db w))"
    using nf assms(2) by (intro put_ok) (auto simp: list_all_iff)
  have q: "purge e (deleted_ids resp) s = (Resolved (), fold store_delete (deleted_ids resp) s)" for s
    using nf by (intro purge_ok) auto
  show ?thesis
    using assms(3,4) by (simp add: sync_apply_def Let_def p q save_cursor_def)
qed

lemma put_tombstone_fails:
  "request_fails e ReqOpen \<or> request_fails e (ReqPut i)
    \<Longrightarrow> fst (put e [tombstone t i] s) =
          Rejected (if request_fails e ReqOpen then OpenError else UpdateError)"
  by (auto simp: put_single put_request_def) (simp_all add: tombstone_def)

lemma run_all_tombstone_fails:
  "i \<in> set ids \<Longrightarrow> request_fails e ReqOpen \<or> request_fails e (ReqPut i)
    \<Longrightarrow> Rejected (if request_fails e ReqOpen then OpenError else UpdateError)
          \<in> set (fst (run_all (\<lambda>i. put e [tombstone t i]) ids s))"
  by (induction ids arbitrary: s)
     (auto simp: run_all_fst_Cons put_tombstone_fails simp del: run_all.simps)

lemma softDelete_fails:
  assumes "i \<in> set ids" and "request_fails e ReqOpen \<or> request_fails e (ReqPut i)"
  shows "\<exists>err. fst (softDelete e t ids w) = Rejected err"
proof -
  from promise_all_Rejected_mem [OF run_all_tombstone_fails [OF assms, of t "db w"]]
  obtain err where "promise_all (fst (run_all (\<lambda>i. put e [tombstone t i]) ids (db w))) = Rejected err" ..
  with assms(1) show ?thesis
    by (cases "run_all (\<lambda>i. put e [tombstone t i]) ids (db w)") (auto simp: softDelete_def)
qed

lemma set_api_fails:
  assumes "JSON_roundtrip d = Inr v"
    and "request_fails e ReqOpen \<or>
         (hooked e BeforeSave
            \<lparr>rec_id = i, rec_type = t, deleted = None, unsynced = Some ''true'', data = v\<rparr> \<noteq> None \<and>
          request_fails e (ReqPut i))"
  shows "fst (set_api e t i d w) = Rejected (if request_fails e ReqOpen then OpenError else UpdateError)"
proof (cases "request_fails e ReqOpen")
  case True
  with assms(1) show ?thesis by (simp add: set_api_def put_single)
next
  case False
  with assms(2) obtain r' n where h: "hooked e BeforeSave
      \<lparr>rec_id = i, rec_type = t, deleted = None, unsynced = Some ''true'', data = v\<rparr> = Some (r', n)"
    and f: "request_fails e (ReqPut i)" by auto
  from hooked_fields [OF h] f False assms(1) h show ?thesis
    by (simp add: set_api_def put_single put_request_def)
qed

lemma set_api_JSON_fails:
  "JSON_roundtrip d = Inl err \<Longrightarrow> set_api e t i d w = (Rejected err, w)"
  by (simp add: set_api_def)

section \<open>Facts about the concrete store\<close>

lemma ex_hooks: "hooks ex_env = None"
  by (simp add: ex_env_def)

lemma ex_put_order [simp]: "put_order ex_env rs = rs"
  by (simp add: put_order_no_hooks ex_hooks)

lemma ex_healthy: "healthy ex_env resp"
  by (simp add: healthy_def no_idb_errors_def list_all_iff hooked_no_hooks [OF ex_hooks])
     (simp add: ex_env_def)

lemma ex_collect: "sync_collect cfg ex_env w = Resolved (call_args cfg w)"
  by (simp add: sync_collect_ok ex_env_def)

lemma ex_idle: "\<not> syncing ex_wire"
  by (simp add: ex_wire_def ex_empty_def)

section \<open>A failing exchange\<close>

text \<open>
  Claim C2. When the exchange call of a cycle rejects or throws, \<open>triggerSync\<close> rejects with
  that error; the cycle has called the exchange and neither \<open>put\<close> nor \<open>purge\<close>; the object
  store and \<open>localStorage\<close> (hence the persisted cursor and the set of unsynced records) are
  what they were before the cycle; and the \<open>syncing\<close> flag is false again. The same holds
  for the event of the exchange rejecting while other code has run in between: it changes
  nothing but the flag.
\<close>

theorem exchange_failure_leaves_state:
  assumes "\<not> syncing w"
    and "sync_collect cfg e w = Resolved args"
    and "exch args = Rejected err"
  shows "fst (triggerSync cfg e exch w) = Rejected err \<and>
         trace (snd (triggerSync cfg e exch w)) = trace w @ [CallExchange args] \<and>
         db (snd (triggerSync cfg e exch w)) = db w \<and>
         localStorage (snd (triggerSync cfg e exch w)) = localStorage w \<and>
         read_cursor cfg (snd (triggerSync cfg e exch w)) = read_cursor cfg w \<and>
         unsynced_rows (db (snd (triggerSync cfg e exch w))) = unsynced_rows (db w) \<and>
         \<not> syncing (snd (triggerSync cfg e exch w)) \<and>
         step cfg e (Settled (Inl err)) (Exchanging, w') = (Idle, w'\<lparr>syncing := False\<rparr>)"
  using assms(1)
  by (simp add: triggerSync_exchange_Rejected [where exch = exch and args = args, OF assms]
      read_cursor_def)

theorem exchange_failure_leaves_state_witness:
  "fst (triggerSync ex_cfg ex_env (\<lambda>_. Rejected (ExchangeError ''offline'')) ex_wire)
     = Rejected (ExchangeError ''offline'') \<and>
   trace (snd (triggerSync ex_cfg ex_env (\<lambda>_. Rejected (ExchangeError ''offline'')) ex_wire))
     = [CallExchange (call_args ex_cfg ex_wire)] \<and>
   unsynced_rows (db (snd (triggerSync ex_cfg ex_env (\<lambda>_. Rejected (ExchangeError ''offline'')) ex_wire)))
     = [ex_rec]"
proof -
  have x: "(\<lambda>_. Rejected (ExchangeError ''offline'')) (call_args ex_cfg ex_wire)
      = (Rejected (ExchangeError ''offline'') :: sync_response outcome)" by simp
  from exchange_failure_leaves_state
         [where exch = "\<lambda>_. Rejected (ExchangeError ''offline'')"
            and args = "call_args ex_cfg ex_wire", OF ex_idle ex_collect x]
  show ?thesis by (simp add: ex_wire_def ex_empty_def unsynced_rows_def ex_rec_def)
qed

section \<open>Purge on server delete\<close>

text \<open>
  Claim C5. Let the response of a cycle's exchange contain an entry with state \<open>deleted\<close>
  for an id, whatever the store holds for that id (a synced, an unsynced or a soft-deleted
  row, or none). Whenever the cycle completes, the store has no row for the id. When nothing
  fails the cycle does complete, also for ids that match no stored row, and the raw read
  \<open>getRawUnhookedRecord\<close> of the id resolves with \<open>undefined\<close>.
\<close>

theorem server_delete_purges:
  assumes idle: "\<not> syncing w"
    and x: "exch (call_args cfg w) = Resolved resp"
    and r: "r \<in> set (r_records resp)" "s_state r = Deleted"
  shows "(\<forall>w'. triggerSync cfg e exch w = (Resolved (), w') \<longrightarrow> store_get (s_id r) (db w') = None) \<and>
         (healthy e resp \<longrightarrow>
            fst (triggerSync cfg e exch w) = Resolved () \<and>
            getRawUnhookedRecord e (s_id r) (db (snd (triggerSync cfg e exch w))) = Resolved None)"
proof -
  from r have mem: "s_id r \<in> set (deleted_ids resp)"
    by (auto simp: deleted_ids_def)
  have a: "store_get (s_id r) (db w') = None" if "triggerSync cfg e exch w = (Resolved (), w')" for w'
    using triggerSync_Resolved [OF idle that] x mem by (auto simp: store_get_fold_delete)
  have b: "fst (triggerSync cfg e exch w) = Resolved () \<and>
      getRawUnhookedRecord e (s_id r) (db (snd (triggerSync cfg e exch w))) = Resolved None"
    if ok: "healthy e resp"
  proof -
    from ok have nf: "\<And>q. \<not> request_fails e q"
      by (auto simp: healthy_def no_idb_errors_def)
    show ?thesis
      using mem
      by (simp add: triggerSync_ok [where exch = exch, OF idle ok x] getRawUnhookedRecord_def nf store_get_fold_delete)
  qed
  from a b show ?thesis by blast
qed

theorem server_delete_purges_witness:
  "store_get ''1'' (db ex_wire) = Some ex_rec \<and>
   store_get ''9'' (db ex_wire) = None \<and>
   fst (triggerSync ex_cfg ex_env (\<lambda>_. Resolved ex_gone) ex_wire) = Resolved () \<and>
   getRawUnhookedRecord ex_env ''1''
     (db (snd (triggerSync ex_cfg ex_env (\<lambda>_. Resolved ex_gone) ex_wire))) = Resolved None \<and>
   getRawUnhookedRecord ex_env ''9''
     (db (snd (triggerSync ex_cfg ex_env (\<lambda>_. Resolved ex_gone) ex_wire))) = Resolved None"
proof -
  have x: "(\<lambda>_. Resolved ex_gone) (call_args ex_cfg ex_wire) = Resolved ex_gone" by simp
  have r1: "\<lparr>s_id = ''1'', s_state = Deleted, s_type = ''todo'', s_data = JObj []\<rparr> \<in> set (r_records ex_gone)"
    and r9: "\<lparr>s_id = ''9'', s_state = Deleted, s_type = ''todo'', s_data = JObj []\<rparr> \<in> set (r_records ex_gone)"
    by (simp_all add: ex_gone_def)
  have before: "store_get ''1'' (db ex_wire) = Some ex_rec" "store_get ''9'' (db ex_wire) = None"
    by (simp_all add: store_get_def ex_wire_def ex_empty_def ex_rec_def)
  from server_delete_purges [where exch = "\<lambda>_. Resolved ex_gone" and e = ex_env, OF ex_idle x r1]
       server_delete_purges [where exch = "\<lambda>_. Resolved ex_gone" and e = ex_env, OF ex_idle x r9]
       ex_healthy [of ex_gone] before
  show ?thesis by simp
qed


section \<open>The unsynced marker\<close>

lemma updated_fields:
  "x \<in> set (updated resp) \<Longrightarrow>
     unsynced x = None \<and> deleted x = None \<and> rec_id x \<in> s_id ` set (r_records resp)"
  by (auto simp: updated_def toIdbRecord_def)

lemma updated_member:
  "r \<in> set (r_records resp) \<Longrightarrow> s_state r = Updated \<Longrightarrow> toIdbRecord r \<in> set (updated resp)"
  by (simp add: updated_def)

lemma put_order_updated_fields:
  assumes "x \<in> set (put_order e (updated resp))"
  shows "unsynced x = None \<and> deleted x = None \<and> rec_id x \<in> s_id ` set (r_records resp)"
proof -
  from assms obtain r n where r: "r \<in> set (updated resp)" and h: "hooked e BeforeSave r = Some (x, n)"
    by (auto simp: set_put_order)
  from hooked_fields [OF h] updated_fields [OF r] show ?thesis by simp
qed

lemma put_order_updated_member:
  assumes "r \<in> set (r_records resp)" "s_state r = Updated" "put_pending e (updated resp) = []"
  shows "\<exists>x \<in> set (put_order e (updated resp)). rec_id x = s_id r"
proof -
  from updated_member [OF assms(1,2)] assms(3)
  obtain x n where h: "hooked e BeforeSave (toIdbRecord r) = Some (x, n)"
    by (auto simp: put_pending_empty)
  with updated_member [OF assms(1,2)] have "x \<in> set (put_order e (updated resp))"
    by (auto simp: set_put_order)
  moreover from hooked_fields [OF h] have "rec_id x = s_id r" by (simp add: toIdbRecord_def)
  ultimately show ?thesis by blast
qed

lemma deleted_ids_subset: "k \<in> set (deleted_ids resp) \<Longrightarrow> k \<in> s_id ` set (r_records resp)"
  by (auto simp: deleted_ids_def)

lemma find_not_None: "x \<in> set xs \<Longrightarrow> P x \<Longrightarrow> find P xs \<noteq> None"
  by (auto simp: find_None_iff)

text \<open>What a raw read finds after a response has been applied.\<close>

lemma store_get_applied_updated:
  assumes "r \<in> set (r_records resp)" "s_state r = Updated" "put_pending e (updated resp) = []"
  shows "\<exists>x. unsynced x = None \<and> deleted x = None \<and>
           store_get (s_id r)
             (fold store_delete (deleted_ids resp) (fold store_put (put_order e (updated resp)) s))
             = (if s_id r \<in> set (deleted_ids resp) then None else Some x)"
proof -
  let ?f = "find (\<lambda>x. rec_id x = s_id r) (rev (put_order e (updated resp)))"
  from put_order_updated_member [OF assms] obtain y
    where "y \<in> set (rev (put_order e (updated resp)))" "rec_id y = s_id r" by auto
  then have "?f \<noteq> None" by (rule find_not_None)
  then obtain x where x: "?f = Some x" by auto
  then have "x \<in> set (put_order e (updated resp))" by (auto dest: find_Some_set)
  then have "unsynced x = None \<and> deleted x = None" by (simp add: put_order_updated_fields)
  then show ?thesis
    by (intro exI [of _ x]) (simp add: store_get_fold_delete store_get_fold_put x)
qed

lemma store_get_applied_other:
  assumes "k \<notin> s_id ` set (r_records resp)"
  shows "store_get k
           (fold store_delete (deleted_ids resp) (fold store_put (put_order e (updated resp)) s))
           = store_get k s"
proof -
  have "find (\<lambda>x. rec_id x = k) (rev (put_order e (updated resp))) = None"
    using assms by (auto simp: find_None_iff dest: put_order_updated_fields)
  moreover have "k \<notin> set (deleted_ids resp)"
    using assms by (auto dest: deleted_ids_subset)
  ultimately show ?thesis
    by (simp add: store_get_fold_delete store_get_fold_put)
qed

text \<open>
  Claim C1. A \<open>set(id, data)\<close> that meets no failure resolves and leaves a row for the id
  whose \<open>unsynced\<close> is \<open>"true"\<close>; so does \<open>delete(...ids)\<close> for each of its ids. After a
  cycle that completes on a response listing an id as \<open>updated\<close>, the row of that id has no
  \<open>unsynced\<close> field (the row is gone if the same response also lists the id as deleted).
  The marker is cleared by that overwrite only: a completed cycle leaves the row of every id
  the response does not mention as it was, marker included.
\<close>

theorem unsynced_marking:
  "(JSON_roundtrip d = Inr v \<longrightarrow> \<not> request_fails e ReqOpen \<longrightarrow> \<not> request_fails e (ReqPut i) \<longrightarrow>
      hooked e BeforeSave
        \<lparr>rec_id = i, rec_type = t, deleted = None, unsynced = Some ''true'', data = v\<rparr> \<noteq> None \<longrightarrow>
      fst (set_api e t i d w) = Resolved () \<and>
      (\<exists>x. store_get i (db (snd (set_api e t i d w))) = Some x \<and> unsynced x = Some ''true'')) \<and>
   (\<not> request_fails e ReqOpen \<longrightarrow> (\<forall>j \<in> set ids. \<not> request_fails e (ReqPut j)) \<longrightarrow> i \<in> set ids \<longrightarrow>
      fst (softDelete e t ids w) = Resolved () \<and>
      (\<exists>x. store_get i (db (snd (softDelete e t ids w))) = Some x \<and> unsynced x = Some ''true'')) \<and>
   (\<not> syncing w \<longrightarrow> exch (call_args cfg w) = Resolved resp \<longrightarrow>
      (healthy e resp \<longrightarrow> fst (triggerSync cfg e exch w) = Resolved ()) \<and>
      (\<forall>w'. triggerSync cfg e exch w = (Resolved (), w') \<longrightarrow>
         (\<forall>r \<in> set (r_records resp). s_state r = Updated \<longrightarrow>
            (\<exists>x. unsynced x = None \<and>
                 store_get (s_id r) (db w') =
                   (if s_id r \<in> set (deleted_ids resp) then None else Some x))) \<and>
         (\<forall>k. k \<notin> s_id ` set (r_records resp) \<longrightarrow> store_get k (db w') = store_get k (db w))))"
proof (intro conjI impI)
  assume a: "JSON_roundtrip d = Inr v" "\<not> request_fails e ReqOpen" "\<not> request_fails e (ReqPut i)"
    and "hooked e BeforeSave
       \<lparr>rec_id = i, rec_type = t, deleted = None, unsynced = Some ''true'', data = v\<rparr> \<noteq> None"
  then obtain r' n where h: "hooked e BeforeSave
       \<lparr>rec_id = i, rec_type = t, deleted = None, unsynced = Some ''true'', data = v\<rparr> = Some (r', n)"
    by auto
  note ok = set_api_ok [OF a h]
  show "fst (set_api e t i d w) = Resolved ()" by (simp add: ok)
  show "\<exists>x. store_get i (db (snd (set_api e t i d w))) = Some x \<and> unsynced x = Some ''true''"
    using hooked_fields [OF h] by (simp add: ok store_get_put)
next
  assume a: "\<not> request_fails e ReqOpen" "\<forall>j \<in> set ids. \<not> request_fails e (ReqPut j)"
    and i: "i \<in> set ids"
  then have "ids \<noteq> []" by auto
  note ok = softDelete_ok [OF a this]
  show "fst (softDelete e t ids w) = Resolved ()" by (simp add: ok)
  show "\<exists>x. store_get i (db (snd (softDelete e t ids w))) = Some x \<and> unsynced x = Some ''true''"
    by (simp add: ok store_get_tombstones [OF i]) (simp add: tombstone_def)
next
  assume "\<not> syncing w" "exch (call_args cfg w) = Resolved resp" "healthy e resp"
  then show "fst (triggerSync cfg e exch w) = Resolved ()"
    by (simp add: triggerSync_ok [where exch = exch])
next
  assume idle: "\<not> syncing w" and x: "exch (call_args cfg w) = Resolved resp"
  show "\<forall>w'. triggerSync cfg e exch w = (Resolved (), w') \<longrightarrow>
         (\<forall>r \<in> set (r_records resp). s_state r = Updated \<longrightarrow>
            (\<exists>x. unsynced x = None \<and>
                 store_get (s_id r) (db w') =
                   (if s_id r \<in> set (deleted_ids resp) then None else Some x))) \<and>
         (\<forall>k. k \<notin> s_id ` set (r_records resp) \<longrightarrow> store_get k (db w') = store_get k (db w))"
  proof (intro allI impI)
    fix w' assume "triggerSync cfg e exch w = (Resolved (), w')"
    from triggerSync_Resolved [OF idle this] x
    have db: "db w' = fold store_delete (deleted_ids resp)
                        (fold store_put (put_order e (updated resp)) (db w))"
      and pe: "put_pending e (updated resp) = []"
      by auto
    show "(\<forall>r \<in> set (r_records resp). s_state r = Updated \<longrightarrow>
            (\<exists>x. unsynced x = None \<and>
                 store_get (s_id r) (db w') =
                   (if s_id r \<in> set (deleted_ids resp) then None else Some x))) \<and>
         (\<forall>k. k \<notin> s_id ` set (r_records resp) \<longrightarrow> store_get k (db w') = store_get k (db w))"
      unfolding db
      using store_get_applied_updated [OF _ _ pe, of _ "db w"]
        store_get_applied_other [of _ resp e "db w"]
      by blast
  qed
qed

theorem unsynced_marking_witness:
  "fst (set_api ex_env ''todo'' ''1'' ex_data ex_empty) = Resolved () \<and>
   store_get ''1'' (db (snd (set_api ex_env ''todo'' ''1'' ex_data ex_empty))) = Some ex_rec \<and>
   unsynced ex_rec = Some ''true'' \<and>
   fst (softDelete ex_env ''todo'' [''1''] ex_wire) = Resolved () \<and>
   store_get ''1'' (db (snd (softDelete ex_env ''todo'' [''1''] ex_wire)))
     = Some (tombstone ''todo'' ''1'') \<and>
   unsynced (tombstone ''todo'' ''1'') = Some ''true'' \<and>
   fst (triggerSync ex_cfg ex_env (\<lambda>_. Resolved ex_echo) ex_wire) = Resolved () \<and>
   store_get ''1'' (db (snd (triggerSync ex_cfg ex_env (\<lambda>_. Resolved ex_echo) ex_wire)))
     = Some (ex_rec\<lparr>unsynced := None\<rparr>)"
proof -
  have rt: "JSON_roundtrip ex_data = Inr ex_data"
    by (simp add: JSON_roundtrip_def ex_data_def)
  have nf: "\<not> request_fails ex_env q" for q by (simp add: ex_env_def)
  have hk: "hooked ex_env st r = Some (r, 0)" for st r
    by (simp add: hooked_no_hooks ex_hooks)
  have s: "set_api ex_env ''todo'' ''1'' ex_data ex_empty =
      (Resolved (), notifyUnsyncedChanges (ex_empty\<lparr>db := store_put ex_rec (db ex_empty)\<rparr>))"
    using set_api_ok [OF rt nf nf hk, where i = "''1''" and t = "''todo''" and w = ex_empty] by (simp add: ex_rec_def)
  have d: "softDelete ex_env ''todo'' [''1''] ex_wire =
      (Resolved (), notifyUnsyncedChanges
         (ex_wire\<lparr>db := fold store_put (map (tombstone ''todo'') [''1'']) (db ex_wire)\<rparr>))"
    by (rule softDelete_ok) (simp_all add: nf)
  have c: "triggerSync ex_cfg ex_env (\<lambda>_. Resolved ex_echo) ex_wire =
     (Resolved (),
      ex_wire\<lparr>db := fold store_delete (deleted_ids ex_echo) (fold store_put (updated ex_echo) (db ex_wire)),
        localStorage := (localStorage ex_wire)(cursorKey ex_cfg := r_syncCursor ex_echo),
        trace := trace ex_wire @ [CallExchange (call_args ex_cfg ex_wire), CallPut (updated ex_echo),
                           CallPurge (deleted_ids ex_echo)]\<rparr>)"
    using triggerSync_ok [where exch = "\<lambda>_. Resolved ex_echo" and resp = ex_echo,
        OF ex_idle ex_healthy, of ex_cfg]
    by simp
  have u: "updated ex_echo = [ex_rec\<lparr>unsynced := None\<rparr>]" and dl: "deleted_ids ex_echo = []"
    by (simp_all add: updated_def deleted_ids_def ex_echo_def toIdbRecord_def ex_rec_def)
  from unsynced_marking [where d = ex_data and v = ex_data and e = ex_env and i = "''1''"
      and t = "''todo''" and w = ex_empty and ids = "[''1'']"]
  show ?thesis
    by (simp add: s d c u dl store_get_put store_get_tombstones)
       (simp add: ex_rec_def tombstone_def)
qed


section \<open>Cursor persistence\<close>

lemma healthy_collect: "healthy e resp \<Longrightarrow> sync_collect cfg e w = Resolved (call_args cfg w)"
  by (rule sync_collect_ok) (auto simp: healthy_def no_idb_errors_def)

text \<open>
  Claim C4. Three cycles in a row, nothing failing in the first two. The first starts with
  no stored cursor and calls the exchange with \<open>syncCursor\<close> undefined. Its response carries
  a cursor \<open>c\<close> (a non-empty string such as \<open>"C1"\<close>): the cursor is stored and the second
  cycle calls the exchange with \<open>c\<close>. The second response has no cursor: the stored cursor is
  removed and the third cycle calls the exchange with \<open>syncCursor\<close> undefined again.
\<close>

theorem cursor_persistence:
  fixes w :: wire and cfg :: config and e :: env and r1 r2 :: sync_response
    and exch :: "jsarg list \<Rightarrow> sync_response outcome"
  assumes idle: "\<not> syncing w"
    and none: "localStorage w (cursorKey cfg) = None"
    and h1: "healthy e r1" and h2: "healthy e r2"
    and c1: "r_syncCursor r1 = Some c" "c \<noteq> []"
    and c2: "r_syncCursor r2 = None"
  defines "w1 \<equiv> snd (triggerSync cfg e (\<lambda>_. Resolved r1) w)"
  defines "w2 \<equiv> snd (triggerSync cfg e (\<lambda>_. Resolved r2) w1)"
  defines "w3 \<equiv> snd (triggerSync cfg e exch w2)"
  shows "exchange_calls w3 = exchange_calls w @
           [CallExchange (exchange_args (map toUnsynced (unsynced_rows (db w))) (ns cfg) None),
            CallExchange (exchange_args (map toUnsynced (unsynced_rows (db w1))) (ns cfg) (Some c)),
            CallExchange (exchange_args (map toUnsynced (unsynced_rows (db w2))) (ns cfg) None)] \<and>
         localStorage w1 (cursorKey cfg) = Some c \<and>
         localStorage w2 (cursorKey cfg) = None"
proof -
  have x1: "(\<lambda>_. Resolved r1) (call_args cfg w) = Resolved r1" by simp
  note t1 = triggerSync_ok [where exch = "\<lambda>_. Resolved r1", OF idle h1 x1]
  have idle1: "\<not> syncing w1" and ls1: "localStorage w1 (cursorKey cfg) = Some c"
    and e1: "exchange_calls w1 = exchange_calls w @ [CallExchange (call_args cfg w)]"
    using idle c1 by (simp_all add: w1_def t1 exchange_calls_def is_exchange_def)
  have x2: "(\<lambda>_. Resolved r2) (call_args cfg w1) = Resolved r2" by simp
  note t2 = triggerSync_ok [where exch = "\<lambda>_. Resolved r2", OF idle1 h2 x2]
  have idle2: "\<not> syncing w2" and ls2: "localStorage w2 (cursorKey cfg) = None"
    and e2: "exchange_calls w2 = exchange_calls w1 @ [CallExchange (call_args cfg w1)]"
    using idle1 c2 by (simp_all add: w2_def t2 exchange_calls_def is_exchange_def)
  have e3: "exchange_calls w3 = exchange_calls w2 @ [CallExchange (call_args cfg w2)]"
    unfolding w3_def by (rule triggerSync_exchange_calls [OF idle2 healthy_collect [OF h1]])
  have "read_cursor cfg w = None" "read_cursor cfg w1 = Some c" "read_cursor cfg w2 = None"
    using none ls1 ls2 c1 by (simp_all add: read_cursor_def)
  then show ?thesis
    by (simp add: e1 e2 e3 ls1 ls2 call_args_def)
qed

theorem cursor_persistence_witness:
  "exchange_calls
     (snd (triggerSync ex_cfg ex_env (\<lambda>_. Pending)
        (snd (triggerSync ex_cfg ex_env (\<lambda>_. Resolved ex_gone)
           (snd (triggerSync ex_cfg ex_env (\<lambda>_. Resolved ex_echo) ex_wire)))))) =
     [CallExchange (exchange_args [toUnsynced ex_rec] [] None),
      CallExchange (exchange_args [] [] (Some ''C1'')),
      CallExchange (exchange_args [] [] None)]"
proof -
  have x1: "(\<lambda>_. Resolved ex_echo) (call_args ex_cfg ex_wire) = Resolved ex_echo" by simp
  note t1 = triggerSync_ok [where exch = "\<lambda>_. Resolved ex_echo", OF ex_idle ex_healthy x1]
  have db1: "db (snd (triggerSync ex_cfg ex_env (\<lambda>_. Resolved ex_echo) ex_wire))
      = [ex_rec\<lparr>unsynced := None\<rparr>]"
    and idle1: "\<not> syncing (snd (triggerSync ex_cfg ex_env (\<lambda>_. Resolved ex_echo) ex_wire))"
    using ex_idle
    by (simp_all add: t1)
       (simp add: updated_def deleted_ids_def ex_echo_def toIdbRecord_def ex_rec_def
          ex_wire_def ex_empty_def store_put_def store_delete_def)
  let ?w1 = "snd (triggerSync ex_cfg ex_env (\<lambda>_. Resolved ex_echo) ex_wire)"
  have x2: "(\<lambda>_. Resolved ex_gone) (call_args ex_cfg ?w1) = Resolved ex_gone" by simp
  note t2 = triggerSync_ok [where exch = "\<lambda>_. Resolved ex_gone", OF idle1 ex_healthy x2]
  have db2: "db (snd (triggerSync ex_cfg ex_env (\<lambda>_. Resolved ex_gone) ?w1)) = []"
    by (simp add: t2 db1)
       (simp add: updated_def deleted_ids_def ex_gone_def store_delete_def ex_rec_def)
  have none: "localStorage ex_wire (cursorKey ex_cfg) = None"
    and calls: "exchange_calls ex_wire = []"
    and rows: "unsynced_rows (db ex_wire) = [ex_rec]"
    by (simp_all add: ex_wire_def ex_empty_def exchange_calls_def unsynced_rows_def ex_rec_def)
  have c: "r_syncCursor ex_echo = Some ''C1''" "''C1'' \<noteq> []" "r_syncCursor ex_gone = None"
    by (simp_all add: ex_echo_def ex_gone_def)
  have nsx: "ns ex_cfg = []" by (simp add: ex_cfg_def)
  have no_rows: "unsynced_rows [ex_rec\<lparr>unsynced := None\<rparr>] = []" "unsynced_rows [] = []"
    by (simp_all add: unsynced_rows_def)
  from cursor_persistence [OF ex_idle none ex_healthy ex_healthy c, of "\<lambda>_. Pending"]
  show ?thesis
    by (simp add: db1 db2 calls rows no_rows nsx)
qed

section \<open>The arguments of the exchange call\<close>

text \<open>
  Claim C8 says that the exchange function is called with three positional arguments.
  The call in \<open>triggerSync\<close> passes one argument, an object with the three values as its
  fields; the cycle of the concrete store shows it.
\<close>

theorem exchange_positional_counterexample:
  "exchange_calls (snd (triggerSync ex_cfg ex_env (\<lambda>_. Resolved ex_echo) ex_wire)) =
     [CallExchange [ArgObject \<lparr>records = [toUnsynced ex_rec], namespace = [], syncCursor = None\<rparr>]] \<and>
   exchange_calls (snd (triggerSync ex_cfg ex_env (\<lambda>_. Resolved ex_echo) ex_wire)) \<noteq>
     [CallExchange (exchange_args_spec [toUnsynced ex_rec] [] None)]"
proof -
  have "exchange_calls (snd (triggerSync ex_cfg ex_env (\<lambda>_. Resolved ex_echo) ex_wire)) =
      exchange_calls ex_wire @ [CallExchange (call_args ex_cfg ex_wire)]"
    by (rule triggerSync_exchange_calls [OF ex_idle ex_collect])
  moreover have "exchange_calls ex_wire = []"
    by (simp add: exchange_calls_def ex_wire_def ex_empty_def)
  moreover have "call_args ex_cfg ex_wire =
      [ArgObject \<lparr>records = [toUnsynced ex_rec], namespace = [], syncCursor = None\<rparr>]"
    by (simp add: call_args_def exchange_args_def unsynced_rows_def read_cursor_def
        ex_wire_def ex_empty_def ex_cfg_def ex_rec_def)
  ultimately show ?thesis by (simp add: exchange_args_spec_def)
qed

text \<open>
  Claim C8 as amended. In every cycle that reaches the exchange, the exchange function is
  called once with a single argument: an object whose fields are \<open>records\<close> (the unsynced
  rows as \<open>UnsyncedRecord\<close>s), \<open>namespace\<close> and \<open>syncCursor\<close> (the stored cursor, undefined
  when there is none).
\<close>

theorem exchange_called_with_object:
  assumes "\<not> syncing w" and "sync_collect cfg e w = Resolved args"
  shows "exchange_calls (snd (triggerSync cfg e exch w)) =
           exchange_calls w @
             [CallExchange [ArgObject \<lparr>records = map toUnsynced (unsynced_rows (db w)),
                                       namespace = ns cfg,
                                       syncCursor = read_cursor cfg w\<rparr>]] \<and>
         length args = 1"
  using triggerSync_exchange_calls [OF assms, of exch] sync_collect_Resolved [OF assms(2)]
  by (simp add: call_args_def exchange_args_def)

theorem exchange_called_with_object_witness:
  "exchange_calls (snd (triggerSync ex_cfg ex_env (\<lambda>_. Pending) ex_wire)) =
     [CallExchange [ArgObject \<lparr>records = [toUnsynced ex_rec], namespace = [], syncCursor = None\<rparr>]]"
proof -
  have "exchange_calls ex_wire = []" "unsynced_rows (db ex_wire) = [ex_rec]"
    "ns ex_cfg = []" "read_cursor ex_cfg ex_wire = None"
    by (simp_all add: exchange_calls_def unsynced_rows_def read_cursor_def
        ex_wire_def ex_empty_def ex_cfg_def ex_rec_def)
  with exchange_called_with_object [OF ex_idle ex_collect, of ex_cfg "\<lambda>_. Pending"]
  show ?thesis by simp
qed

section \<open>Where failures go\<close>

lemma deliver_sync_callback:
  "notify_timeout (fst (listenToUnsyncedChanges now (sync_callback cfg e exch) [])) w =
     (snd (triggerSync cfg e exch w), [])"
  by (simp add: notify_timeout_def listenToUnsyncedChanges_def notified_def sync_callback_def Let_def)

text \<open>
  Claim C9 says that a failure inside a sync cycle never reaches a caller. \<open>triggerSync\<close> has a
  \<open>finally\<close> block and no \<open>catch\<close>: the promise it returns, which is also what \<open>sync()\<close> of the
  store context returns, rejects with the error.
\<close>

theorem sync_failure_counterexample:
  "fst (triggerSync ex_cfg ex_env (\<lambda>_. Rejected (ExchangeError ''offline'')) ex_wire) =
     Rejected (ExchangeError ''offline'')"
  using ex_idle by (simp add: triggerSync_def Let_def ex_collect)

text \<open>
  Claim C9 as amended. A failure inside a sync cycle resets the \<open>syncing\<close> flag and rejects
  the promise that \<open>triggerSync\<close> returns: a storage error while the unsynced records are read,
  a rejecting exchange, a storage error while the response is applied (a \<open>put\<close> request, or
  a \<open>get\<close> or \<open>delete\<close> request of \<open>purge\<close>), and \<open>localStorage.setItem\<close> throwing when the cursor
  is stored. A caller of \<open>sync()\<close> receives that rejection. The triggers of the engine itself
  (mount, notifier, timer) take nothing from the promise: whatever the outcome of the cycle,
  the subscriber that the service registers throws nothing into the notifier and the notifier
  logs nothing, and a \<open>set\<close> that has resolved stays resolved when the cycle its notification
  starts fails. In the write path a storage error (the database does not open, or the \<open>put\<close>
  request of a record fails) rejects \<open>put\<close>, \<open>set\<close> and \<open>delete\<close>, and so does a payload for
  which \<open>JSON.parse(JSON.stringify(data))\<close> throws.
\<close>

theorem failures_reject:
  "(\<not> syncing w \<longrightarrow> sync_collect cfg e w = Rejected err \<longrightarrow>
      fst (triggerSync cfg e exch w) = Rejected err \<and> \<not> syncing (snd (triggerSync cfg e exch w))) \<and>
   (\<not> syncing w \<longrightarrow> sync_collect cfg e w = Resolved args \<longrightarrow> exch args = Rejected err \<longrightarrow>
      fst (triggerSync cfg e exch w) = Rejected err \<and> \<not> syncing (snd (triggerSync cfg e exch w))) \<and>
   (\<not> syncing w \<longrightarrow> sync_collect cfg e w = Resolved args \<longrightarrow> exch args = Resolved resp \<longrightarrow>
      \<not> request_fails e ReqOpen \<longrightarrow> r \<in> set (updated resp) \<longrightarrow> hooked e BeforeSave r \<noteq> None \<longrightarrow>
      request_fails e (ReqPut (rec_id r)) \<longrightarrow>
      (\<exists>err'. fst (triggerSync cfg e exch w) = Rejected err') \<and>
      \<not> syncing (snd (triggerSync cfg e exch w))) \<and>
   (\<not> syncing w \<longrightarrow> sync_collect cfg e w = Resolved args \<longrightarrow> exch args = Resolved resp \<longrightarrow>
      fst (put e (updated resp) (db w)) = Resolved () \<longrightarrow>
      \<not> request_fails e ReqOpen \<longrightarrow> j \<in> set (deleted_ids resp) \<longrightarrow>
      request_fails e (ReqGet j) \<or> request_fails e (ReqDelete j) \<longrightarrow>
      (\<exists>err'. fst (triggerSync cfg e exch w) = Rejected err') \<and>
      \<not> syncing (snd (triggerSync cfg e exch w))) \<and>
   (\<not> syncing w \<longrightarrow> sync_collect cfg e w = Resolved args \<longrightarrow> exch args = Resolved resp \<longrightarrow>
      no_idb_errors e \<longrightarrow> list_all (\<lambda>r. hooked e BeforeSave r \<noteq> None) (updated resp) \<longrightarrow>
      setItem_fails e \<longrightarrow> r_syncCursor resp = Some c \<longrightarrow>
      fst (triggerSync cfg e exch w) = Rejected QuotaExceededError \<and>
      \<not> syncing (snd (triggerSync cfg e exch w))) \<and>
   sync_callback cfg e exch w = Inr (snd (triggerSync cfg e exch w)) \<and>
   notify_timeout (fst (listenToUnsyncedChanges now (sync_callback cfg e exch) [])) w =
     (snd (triggerSync cfg e exch w), []) \<and>
   (JSON_roundtrip d = Inr v \<longrightarrow> \<not> request_fails e ReqOpen \<longrightarrow> \<not> request_fails e (ReqPut i) \<longrightarrow>
      hooked e BeforeSave
        \<lparr>rec_id = i, rec_type = t, deleted = None, unsynced = Some ''true'', data = v\<rparr> \<noteq> None \<longrightarrow>
      fst (triggerSync cfg e exch (snd (set_api e t i d w))) = Rejected err \<longrightarrow>
      fst (set_api e t i d w) = Resolved () \<and>
      notifications (snd (set_api e t i d w)) = Suc (notifications w) \<and>
      notify_timeout (fst (listenToUnsyncedChanges now (sync_callback cfg e exch) []))
        (snd (set_api e t i d w)) =
        (snd (triggerSync cfg e exch (snd (set_api e t i d w))), [])) \<and>
   (request_fails e ReqOpen \<longrightarrow> rs \<noteq> [] \<longrightarrow> fst (put e rs s) = Rejected OpenError) \<and>
   (\<not> request_fails e ReqOpen \<longrightarrow> r \<in> set rs \<longrightarrow> hooked e BeforeSave r \<noteq> None \<longrightarrow>
      request_fails e (ReqPut (rec_id r)) \<longrightarrow> (\<exists>err'. fst (put e rs s) = Rejected err')) \<and>
   (JSON_roundtrip d = Inr v \<longrightarrow>
      request_fails e ReqOpen \<or>
        (hooked e BeforeSave
           \<lparr>rec_id = i, rec_type = t, deleted = None, unsynced = Some ''true'', data = v\<rparr> \<noteq> None \<and>
         request_fails e (ReqPut i)) \<longrightarrow>
      (\<exists>err'. fst (set_api e t i d w) = Rejected err')) \<and>
   (JSON_roundtrip d = Inl err \<longrightarrow> fst (set_api e t i d w) = Rejected err) \<and>
   (i \<in> set ids \<longrightarrow> request_fails e ReqOpen \<or> request_fails e (ReqPut i) \<longrightarrow>
      (\<exists>err'. fst (softDelete e t ids w) = Rejected err'))"
proof (intro conjI impI)
  assume "\<not> syncing w" "sync_collect cfg e w = Rejected err"
  then show "fst (triggerSync cfg e exch w) = Rejected err"
    and "\<not> syncing (snd (triggerSync cfg e exch w))"
    by (simp_all add: triggerSync_collect_Rejected)
next
  assume a: "\<not> syncing w" "sync_collect cfg e w = Resolved args" "exch args = Rejected err"
  note t = triggerSync_exchange_Rejected [where exch = exch and args = args, OF a]
  show "fst (triggerSync cfg e exch w) = Rejected err"
    and "\<not> syncing (snd (triggerSync cfg e exch w))"
    using a(1) by (simp_all add: t)
next
  assume a: "\<not> syncing w" "sync_collect cfg e w = Resolved args" "exch args = Resolved resp"
    and b: "\<not> request_fails e ReqOpen" "r \<in> set (updated resp)"
      "hooked e BeforeSave r \<noteq> None" "request_fails e (ReqPut (rec_id r))"
  from sync_apply_put_fails [OF b, of cfg w] obtain err'
    where "fst (sync_apply cfg e resp w) = Rejected err'" ..
  note t = triggerSync_apply_Rejected [where exch = exch and args = args, OF a this]
  from t show "\<exists>err'. fst (triggerSync cfg e exch w) = Rejected err'" by blast
  from t show "\<not> syncing (snd (triggerSync cfg e exch w))" by blast
next
  assume a: "\<not> syncing w" "sync_collect cfg e w = Resolved args" "exch args = Resolved resp"
    and b: "fst (put e (updated resp) (db w)) = Resolved ()" "\<not> request_fails e ReqOpen"
      "j \<in> set (deleted_ids resp)" "request_fails e (ReqGet j) \<or> request_fails e (ReqDelete j)"
  from sync_apply_purge_fails [OF b, of cfg] obtain err'
    where "fst (sync_apply cfg e resp w) = Rejected err'" ..
  note t = triggerSync_apply_Rejected [where exch = exch and args = args, OF a this]
  from t show "\<exists>err'. fst (triggerSync cfg e exch w) = Rejected err'" by blast
  from t show "\<not> syncing (snd (triggerSync cfg e exch w))" by blast
next
  assume a: "\<not> syncing w" "sync_collect cfg e w = Resolved args" "exch args = Resolved resp"
    and b: "no_idb_errors e" "list_all (\<lambda>r. hooked e BeforeSave r \<noteq> None) (updated resp)"
      "setItem_fails e" "r_syncCursor resp = Some c"
  note t = triggerSync_apply_Rejected [where exch = exch and args = args,
      OF a sync_apply_cursor_fails [OF b]]
  from t show "fst (triggerSync cfg e exch w) = Rejected QuotaExceededError" by blast
  from t show "\<not> syncing (snd (triggerSync cfg e exch w))" by blast
next
  show "sync_callback cfg e exch w = Inr (snd (triggerSync cfg e exch w))"
    by (simp add: sync_callback_def)
next
  show "notify_timeout (fst (listenToUnsyncedChanges now (sync_callback cfg e exch) [])) w =
     (snd (triggerSync cfg e exch w), [])"
    by (rule deliver_sync_callback)
next
  assume a: "JSON_roundtrip d = Inr v" "\<not> request_fails e ReqOpen" "\<not> request_fails e (ReqPut i)"
    and "hooked e BeforeSave
       \<lparr>rec_id = i, rec_type = t, deleted = None, unsynced = Some ''true'', data = v\<rparr> \<noteq> None"
  then obtain r' n where h: "hooked e BeforeSave
       \<lparr>rec_id = i, rec_type = t, deleted = None, unsynced = Some ''true'', data = v\<rparr> = Some (r', n)"
    by auto
  note ok = set_api_ok [OF a h]
  show "fst (set_api e t i d w) = Resolved ()" by (simp add: ok)
  show "notifications (snd (set_api e t i d w)) = Suc (notifications w)"
    by (simp add: ok notifyUnsyncedChanges_def)
  show "notify_timeout (fst (listenToUnsyncedChanges now (sync_callback cfg e exch) []))
        (snd (set_api e t i d w)) =
        (snd (triggerSync cfg e exch (snd (set_api e t i d w))), [])"
    by (rule deliver_sync_callback)
next
  assume "request_fails e ReqOpen" "rs \<noteq> []"
  then show "fst (put e rs s) = Rejected OpenError" by (simp add: put_open_fails)
next
  assume "\<not> request_fails e ReqOpen" "r \<in> set rs" "hooked e BeforeSave r \<noteq> None"
    "request_fails e (ReqPut (rec_id r))"
  then show "\<exists>err'. fst (put e rs s) = Rejected err'" by (rule put_request_fails)
next
  assume "JSON_roundtrip d = Inr v"
    "request_fails e ReqOpen \<or>
        (hooked e BeforeSave
           \<lparr>rec_id = i, rec_type = t, deleted = None, unsynced = Some ''true'', data = v\<rparr> \<noteq> None \<and>
         request_fails e (ReqPut i))"
  from set_api_fails [OF this] show "\<exists>err'. fst (set_api e t i d w) = Rejected err'" by blast
next
  assume "JSON_roundtrip d = Inl err"
  then show "fst (set_api e t i d w) = Rejected err" by (simp add: set_api_JSON_fails)
next
  assume "i \<in> set ids" "request_fails e ReqOpen \<or> request_fails e (ReqPut i)"
  then show "\<exists>err'. fst (softDelete e t ids w) = Rejected err'" by (rule softDelete_fails)
qed

theorem failures_reject_witness:
  "fst (triggerSync ex_cfg (ex_env\<lparr>request_fails := (\<lambda>q. q = ReqGetAllUnsynced)\<rparr>)
          (\<lambda>_. Resolved ex_echo) ex_wire) = Rejected ReadUnsyncedError \<and>
   fst (triggerSync ex_cfg ex_env (\<lambda>_. Rejected (ExchangeError ''HTTP 500'')) ex_wire)
     = Rejected (ExchangeError ''HTTP 500'') \<and>
   fst (triggerSync ex_cfg (ex_env\<lparr>request_fails := (\<lambda>q. q = ReqPut ''1'')\<rparr>)
          (\<lambda>_. Resolved ex_echo) ex_wire) = Rejected UpdateError \<and>
   fst (triggerSync ex_cfg (ex_env\<lparr>request_fails := (\<lambda>q. q = ReqDelete ''1'')\<rparr>)
          (\<lambda>_. Resolved ex_gone) ex_wire) = Rejected DeleteError \<and>
   fst (triggerSync ex_cfg (ex_env\<lparr>request_fails := (\<lambda>q. q = ReqGet ''9'')\<rparr>)
          (\<lambda>_. Resolved ex_gone) ex_wire) = Rejected (ReadRecordError ''9'') \<and>
   fst (triggerSync ex_cfg (ex_env\<lparr>setItem_fails := True\<rparr>)
          (\<lambda>_. Resolved ex_echo) ex_wire) = Rejected QuotaExceededError \<and>
   fst (set_api ex_env ''todo'' ''1'' ex_data ex_empty) = Resolved () \<and>
   fst (triggerSync ex_cfg ex_env (\<lambda>_. Rejected (ExchangeError ''HTTP 500''))
          (snd (set_api ex_env ''todo'' ''1'' ex_data ex_empty)))
     = Rejected (ExchangeError ''HTTP 500'') \<and>
   snd (notify_timeout
          (fst (listenToUnsyncedChanges 1730
             (sync_callback ex_cfg ex_env (\<lambda>_. Rejected (ExchangeError ''HTTP 500''))) []))
          (snd (set_api ex_env ''todo'' ''1'' ex_data ex_empty))) = [] \<and>
   fst (put (ex_env\<lparr>request_fails := (\<lambda>q. q = ReqOpen)\<rparr>) [ex_rec] []) = Rejected OpenError \<and>
   fst (put (ex_env\<lparr>request_fails := (\<lambda>q. q = ReqPut ''1'')\<rparr>) [ex_rec] []) = Rejected UpdateError \<and>
   fst (set_api (ex_env\<lparr>request_fails := (\<lambda>q. q = ReqPut ''1'')\<rparr>) ''todo'' ''1'' ex_data ex_empty)
     = Rejected UpdateError \<and>
   fst (set_api ex_env ''todo'' ''1'' JUndefined ex_empty) = Rejected JSONError \<and>
   fst (softDelete (ex_env\<lparr>request_fails := (\<lambda>q. q = ReqPut ''1'')\<rparr>) ''todo'' [''1''] ex_wire)
     = Rejected UpdateError"
proof -
  let ?eA = "ex_env\<lparr>request_fails := (\<lambda>q. q = ReqGetAllUnsynced)\<rparr>"
  let ?eC = "ex_env\<lparr>request_fails := (\<lambda>q. q = ReqPut ''1'')\<rparr>"
  let ?eP = "ex_env\<lparr>request_fails := (\<lambda>q. q = ReqDelete ''1'')\<rparr>"
  let ?eG = "ex_env\<lparr>request_fails := (\<lambda>q. q = ReqGet ''9'')\<rparr>"
  let ?eD = "ex_env\<lparr>setItem_fails := True\<rparr>"
  let ?eO = "ex_env\<lparr>request_fails := (\<lambda>q. q = ReqOpen)\<rparr>"
  let ?x = "\<lambda>_::jsarg list. Rejected (ExchangeError ''HTTP 500'') :: sync_response outcome"
  have cA: "sync_collect ex_cfg ?eA ex_wire = Rejected ReadUnsyncedError"
    by (simp add: sync_collect_def getRawUnhookedUnsyncedRecords_def ex_env_def)
  have cC: "sync_collect ex_cfg ?eC w = Resolved (call_args ex_cfg w)"
    and cP: "sync_collect ex_cfg ?eP w = Resolved (call_args ex_cfg w)"
    and cG: "sync_collect ex_cfg ?eG w = Resolved (call_args ex_cfg w)"
    and cD: "sync_collect ex_cfg ?eD w = Resolved (call_args ex_cfg w)" for w
    by (simp_all add: sync_collect_ok ex_env_def)
  have u: "updated ex_echo = [ex_rec\<lparr>unsynced := None\<rparr>]" "updated ex_gone = []"
    and dl: "deleted_ids ex_gone = [''1'', ''9'']"
    by (simp_all add: updated_def deleted_ids_def ex_echo_def ex_gone_def toIdbRecord_def ex_rec_def)
  have rt: "JSON_roundtrip ex_data = Inr ex_data"
    by (simp add: JSON_roundtrip_def ex_data_def)
  have hk: "hooked (ex_env\<lparr>request_fails := f\<rparr>) st r = Some (r, 0)"
    "hooked ?eD st r = Some (r, 0)" "hooked ex_env st r = Some (r, 0)" for f st r
    by (simp_all add: hooked_no_hooks ex_env_def)
  have putC: "put ?eC [x] s1 = (if rec_id x = ''1'' then (Rejected UpdateError, s1)
      else (Resolved (), store_put x s1))" for x s1
    by (simp add: put_single put_request_def hk)
  have A: "fst (triggerSync ex_cfg ?eA (\<lambda>_. Resolved ex_echo) ex_wire) = Rejected ReadUnsyncedError"
    using failures_reject [where w = ex_wire and cfg = ex_cfg and e = ?eA
        and err = ReadUnsyncedError and exch = "\<lambda>_. Resolved ex_echo"] ex_idle cA
    by simp
  have B: "fst (triggerSync ex_cfg ex_env ?x ex_wire) = Rejected (ExchangeError ''HTTP 500'')"
    using failures_reject [where w = ex_wire and cfg = ex_cfg and e = ex_env
        and err = "ExchangeError ''HTTP 500''" and args = "call_args ex_cfg ex_wire"
        and exch = ?x] ex_idle ex_collect
    by simp
  have C: "fst (triggerSync ex_cfg ?eC (\<lambda>_. Resolved ex_echo) ex_wire) = Rejected UpdateError"
    using ex_idle
    by (simp add: triggerSync_def Let_def cC sync_apply_def u putC) (simp add: ex_rec_def)
  have P: "fst (triggerSync ex_cfg ?eP (\<lambda>_. Resolved ex_gone) ex_wire) = Rejected DeleteError"
    using ex_idle
    by (simp add: triggerSync_def Let_def cP sync_apply_def u dl put_def purge_def
        getRawUnhookedRecord_def delete_one_def settled_def)
  have G: "fst (triggerSync ex_cfg ?eG (\<lambda>_. Resolved ex_gone) ex_wire)
      = Rejected (ReadRecordError ''9'')"
    using ex_idle
    by (simp add: triggerSync_def Let_def cG sync_apply_def u dl put_def purge_def
        getRawUnhookedRecord_def delete_one_def settled_def)
  have D: "fst (triggerSync ex_cfg ?eD (\<lambda>_. Resolved ex_echo) ex_wire) = Rejected QuotaExceededError"
    using failures_reject [where w = ex_wire and cfg = ex_cfg and e = ?eD
        and args = "call_args ex_cfg ex_wire" and resp = ex_echo and c = "''C1''"
        and exch = "\<lambda>_. Resolved ex_echo"] ex_idle cD
    by (simp add: no_idb_errors_def list_all_iff hk) (simp add: ex_env_def ex_echo_def)
  have S: "set_api ex_env ''todo'' ''1'' ex_data ex_empty =
      (Resolved (), notifyUnsyncedChanges (ex_empty\<lparr>db := store_put ex_rec (db ex_empty)\<rparr>))"
    using set_api_ok [where i = "''1''" and t = "''todo''" and w = ex_empty and e = ex_env,
        OF rt _ _ hk(3)]
    by (simp add: ex_rec_def ex_env_def)
  have idle': "\<not> syncing (snd (set_api ex_env ''todo'' ''1'' ex_data ex_empty))"
    by (simp add: S notifyUnsyncedChanges_def) (simp add: ex_empty_def)
  have T: "fst (triggerSync ex_cfg ex_env ?x (snd (set_api ex_env ''todo'' ''1'' ex_data ex_empty)))
      = Rejected (ExchangeError ''HTTP 500'')"
    using idle' by (simp add: triggerSync_def Let_def ex_collect)
  have N: "snd (notify_timeout
          (fst (listenToUnsyncedChanges 1730 (sync_callback ex_cfg ex_env ?x) []))
          (snd (set_api ex_env ''todo'' ''1'' ex_data ex_empty))) = []"
    using failures_reject [where cfg = ex_cfg and e = ex_env and exch = ?x and now = 1730
        and w = "snd (set_api ex_env ''todo'' ''1'' ex_data ex_empty)"]
    by simp
  have E: "fst (put ?eO [ex_rec] []) = Rejected OpenError"
    using failures_reject [where e = ?eO and rs = "[ex_rec]" and s = "[]"]
    by (simp add: ex_env_def)
  have F: "fst (put ?eC [ex_rec] []) = Rejected UpdateError"
    by (simp add: putC) (simp add: ex_rec_def)
  have H: "fst (set_api ?eC ''todo'' ''1'' ex_data ex_empty) = Rejected UpdateError"
    by (simp add: set_api_def rt putC)
  have J: "fst (set_api ex_env ''todo'' ''1'' JUndefined ex_empty) = Rejected JSONError"
    by (simp add: set_api_def JSON_roundtrip_def)
  have K: "fst (softDelete ?eC ''todo'' [''1''] ex_wire) = Rejected UpdateError"
    by (simp add: softDelete_def putC) (simp add: tombstone_def)
  from A B C P G D S T N E F H J K show ?thesis by simp
qed

section \<open>At most one cycle in flight\<close>

lemma set_api_keeps [simp]:
  "trace (snd (set_api e t i d w)) = trace w"
  "syncing (snd (set_api e t i d w)) = syncing w"
  by (cases "JSON_roundtrip d"; cases "put e [\<lparr>rec_id = i, rec_type = t, deleted = None,
        unsynced = Some ''true'', data = projr (JSON_roundtrip d)\<rparr>] (db w)";
      cases "fst (put e [\<lparr>rec_id = i, rec_type = t, deleted = None,
        unsynced = Some ''true'', data = projr (JSON_roundtrip d)\<rparr>] (db w))";
      simp add: set_api_def notifyUnsyncedChanges_def)+

lemma softDelete_keeps [simp]:
  "trace (snd (softDelete e t ids w)) = trace w"
  "syncing (snd (softDelete e t ids w)) = syncing w"
  by (cases "run_all (\<lambda>i. put e [tombstone t i]) ids (db w)";
      cases "promise_all (fst (run_all (\<lambda>i. put e [tombstone t i]) ids (db w)))";
      simp add: softDelete_def notifyUnsyncedChanges_def)+

text \<open>While the exchange is awaited, nothing but its settling ends the wait.\<close>

lemma run_Exchanging:
  assumes "syncing w" and "\<forall>ev \<in> set evs. \<not> is_settled ev"
  shows "\<exists>w'. run cfg e evs (Exchanging, w) = (Exchanging, w') \<and> syncing w' \<and>
           exchange_calls w' = exchange_calls w"
  using assms
proof (induction evs arbitrary: w)
  case Nil
  then show ?case by simp
next
  case (Cons ev evs)
  from Cons.prems(2) have ns: "\<not> is_settled ev" and rest: "\<forall>ev \<in> set evs. \<not> is_settled ev"
    by auto
  from ns Cons.prems(1) obtain w1 where s: "step cfg e ev (Exchanging, w) = (Exchanging, w1)"
    and w1: "syncing w1" "exchange_calls w1 = exchange_calls w"
    by (cases ev) (auto simp: is_settled_def exchange_calls_def)
  from Cons.IH [OF w1(1) rest] w1(2) s show ?case by auto
qed

text \<open>Without a trigger an idle engine stays idle.\<close>

lemma run_Idle:
  assumes "\<forall>ev \<in> set evs. ev \<noteq> Trigger"
  shows "\<exists>w'. run cfg e evs (Idle, w) = (Idle, w') \<and> exchange_calls w' = exchange_calls w"
  using assms
proof (induction evs arbitrary: w)
  case Nil
  then show ?case by simp
next
  case (Cons ev evs)
  from Cons.prems have nt: "ev \<noteq> Trigger" and rest: "\<forall>ev \<in> set evs. ev \<noteq> Trigger"
    by auto
  from nt obtain w1 where s: "step cfg e ev (Idle, w) = (Idle, w1)"
    and w1: "exchange_calls w1 = exchange_calls w"
    by (cases ev) (auto simp: exchange_calls_def)
  from Cons.IH [OF rest, of w1] w1 s show ?case by auto
qed

text \<open>A call that hangs holds the flag for good.\<close>

lemma run_Hung:
  assumes "syncing w"
  shows "\<exists>w'. run cfg e evs (Hung, w) = (Hung, w') \<and> syncing w' \<and>
           exchange_calls w' = exchange_calls w"
  using assms
proof (induction evs arbitrary: w)
  case Nil
  then show ?case by simp
next
  case (Cons ev evs)
  from Cons.prems obtain w1 where s: "step cfg e ev (Hung, w) = (Hung, w1)"
    and w1: "syncing w1" "exchange_calls w1 = exchange_calls w"
    by (cases ev) (auto simp: exchange_calls_def)
  from Cons.IH [OF w1(1)] w1(2) s show ?case by auto
qed

lemma step_Settled:
  assumes "syncing w"
  shows "\<exists>ph w'. step cfg e (Settled r) (Exchanging, w) = (ph, w') \<and>
      exchange_calls w' = exchange_calls w \<and> (ph = Idle \<or> (ph = Hung \<and> syncing w'))"
proof (cases r)
  case (Inl err)
  then show ?thesis by simp
next
  case (Inr resp)
  obtain p w3 where a: "sync_apply cfg e resp w = (p, w3)"
    by (cases "sync_apply cfg e resp w")
  have c: "exchange_calls w3 = exchange_calls w" and f: "syncing w3"
    using sync_apply_exchange_calls [of cfg e resp w] sync_apply_syncing [of cfg e resp w] a assms
    by simp_all
  show ?thesis
    using Inr a c f by (cases p) (simp_all add: release_def)
qed

lemma run_append: "run cfg e (xs @ ys) m = run cfg e ys (run cfg e xs m)"
  by (induction xs arbitrary: m) simp_all

lemma run_Triggers: "syncing w \<Longrightarrow> run cfg e (replicate k Trigger) (ph, w) = (ph, w)"
  by (induction k) simp_all

text \<open>The three events of an undisturbed cycle leave the state that \<open>triggerSync\<close> computes.\<close>

lemma cycle_as_events:
  assumes "\<not> syncing w"
  shows "snd (run cfg e [Trigger, Collected, Settled r] (Idle, w)) =
         snd (triggerSync cfg e (\<lambda>_. case r of Inl err \<Rightarrow> Rejected err | Inr resp \<Rightarrow> Resolved resp) w)"
proof (cases "sync_collect cfg e w")
  case (Resolved args)
  show ?thesis
  proof (cases r)
    case (Inl err)
    then show ?thesis using assms Resolved by (simp add: triggerSync_def Let_def)
  next
    case (Inr resp)
    then show ?thesis
      using assms Resolved
      by (cases "sync_apply cfg e resp (w\<lparr>syncing := True, trace := trace w @ [CallExchange args]\<rparr>)")
         (simp add: triggerSync_def Let_def)
  qed
next
  case (Rejected err)
  then show ?thesis using assms by (simp add: triggerSync_def Let_def)
next
  case Pending
  then show ?thesis using assms by (simp add: triggerSync_def Let_def)
qed

text \<open>
  Claim C3. A call of \<open>triggerSync\<close> while the flag is set changes nothing: the trigger is
  dropped and nothing is queued. So a cycle that starts from an idle engine, with any number
  of further triggers while it reads the unsynced records and while it awaits the exchange,
  has called the exchange exactly once. And from a state in which the exchange is awaited,
  whatever events follow (triggers, local writes), a further exchange call occurs only if the
  exchange has settled, which ends the cycle, and a trigger has arrived after that.
\<close>

theorem one_cycle_in_flight:
  "(syncing w \<longrightarrow> step cfg e Trigger (ph, w) = (ph, w)) \<and>
   (\<not> syncing w \<longrightarrow> sync_collect cfg e w = Resolved args \<longrightarrow>
      run cfg e (Trigger # replicate k Trigger @ Collected # replicate m Trigger) (Idle, w) =
        (Exchanging, w\<lparr>syncing := True, trace := trace w @ [CallExchange args]\<rparr>)) \<and>
   (syncing w \<longrightarrow>
      length (exchange_calls w) < length (exchange_calls (snd (run cfg e evs (Exchanging, w)))) \<longrightarrow>
      (\<exists>evs1 r evs2 evs3. evs = evs1 @ Settled r # evs2 @ Trigger # evs3))"
proof (intro conjI impI)
  assume "syncing w"
  then show "step cfg e Trigger (ph, w) = (ph, w)" by simp
next
  assume a: "\<not> syncing w" "sync_collect cfg e w = Resolved args"
  have "run cfg e (replicate k Trigger @ Collected # replicate m Trigger)
          (Collecting, w\<lparr>syncing := True\<rparr>) =
        (Exchanging, w\<lparr>syncing := True, trace := trace w @ [CallExchange args]\<rparr>)"
    by (simp add: run_append run_Triggers a(2))
  with a(1)
  show "run cfg e (Trigger # replicate k Trigger @ Collected # replicate m Trigger) (Idle, w) =
        (Exchanging, w\<lparr>syncing := True, trace := trace w @ [CallExchange args]\<rparr>)"
    by simp
next
  assume flag: "syncing w"
    and more: "length (exchange_calls w) <
               length (exchange_calls (snd (run cfg e evs (Exchanging, w))))"
  show "\<exists>evs1 r evs2 evs3. evs = evs1 @ Settled r # evs2 @ Trigger # evs3"
  proof (cases "\<exists>ev \<in> set evs. is_settled ev")
    case False
    then have "\<forall>ev \<in> set evs. \<not> is_settled ev" by simp
    from run_Exchanging [OF flag this, of cfg e] more show ?thesis by auto
  next
    case True
    from split_list_first_prop [OF this]
    obtain evs1 ev rest where split: "evs = evs1 @ ev # rest"
      and ev: "is_settled ev" and first: "\<forall>x \<in> set evs1. \<not> is_settled x"
      by blast
    from ev obtain r where r: "ev = Settled r"
      by (cases ev) (simp_all add: is_settled_def)
    from run_Exchanging [OF flag first, of cfg e] obtain w1
      where w1: "run cfg e evs1 (Exchanging, w) = (Exchanging, w1)" "syncing w1"
        "exchange_calls w1 = exchange_calls w" by auto
    from step_Settled [OF w1(2), of cfg e r] obtain ph w2
      where w2: "step cfg e (Settled r) (Exchanging, w1) = (ph, w2)"
        "exchange_calls w2 = exchange_calls w1" "ph = Idle \<or> (ph = Hung \<and> syncing w2)"
      by auto
    have whole: "run cfg e evs (Exchanging, w) = run cfg e rest (ph, w2)"
      by (simp add: split r run_append w1(1) w2(1) del: step.simps)
    show ?thesis
    proof (cases "Trigger \<in> set rest")
      case True
      then obtain evs2 evs3 where "rest = evs2 @ Trigger # evs3"
        by (auto dest: split_list)
      with split r show ?thesis by blast
    next
      case False
      then have nt: "\<forall>x \<in> set rest. x \<noteq> Trigger" by auto
      have "exchange_calls (snd (run cfg e rest (ph, w2))) = exchange_calls w2"
        using w2(3) run_Idle [OF nt, of cfg e w2] run_Hung [of w2 cfg e rest] by auto
      with more whole w2(2) w1(3) show ?thesis by simp
    qed
  qed
qed

theorem one_cycle_in_flight_witness:
  "step ex_cfg ex_env Trigger (Exchanging, ex_wire\<lparr>syncing := True\<rparr>) =
     (Exchanging, ex_wire\<lparr>syncing := True\<rparr>) \<and>
   run ex_cfg ex_env [Trigger, Trigger, Trigger, Collected, Trigger, Trigger] (Idle, ex_wire) =
     (Exchanging, ex_wire\<lparr>syncing := True, trace := [CallExchange (call_args ex_cfg ex_wire)]\<rparr>) \<and>
   length (exchange_calls (ex_wire\<lparr>syncing := True\<rparr>)) <
     length (exchange_calls (snd (run ex_cfg ex_env [Settled (Inr ex_echo), Trigger, Collected]
        (Exchanging, ex_wire\<lparr>syncing := True\<rparr>)))) \<and>
   (\<exists>evs1 r evs2 evs3.
      [Settled (Inr ex_echo), Trigger, Collected] = evs1 @ Settled r # evs2 @ Trigger # evs3)"
proof -
  let ?w = "ex_wire\<lparr>syncing := True\<rparr>"
  have flag: "syncing ?w" by simp
  have tr: "trace ex_wire = []" by (simp add: ex_wire_def ex_empty_def)
  have more: "length (exchange_calls ?w) <
      length (exchange_calls (snd (run ex_cfg ex_env [Settled (Inr ex_echo), Trigger, Collected]
        (Exchanging, ?w))))"
    by (simp add: sync_apply_ok [OF ex_healthy] release_def ex_collect exchange_calls_def
        is_exchange_def tr)
  from one_cycle_in_flight [where w = ?w and cfg = ex_cfg and e = ex_env and ph = Exchanging
      and evs = "[Settled (Inr ex_echo), Trigger, Collected]"] flag more
  have a: "step ex_cfg ex_env Trigger (Exchanging, ?w) = (Exchanging, ?w)"
    and c: "\<exists>evs1 r evs2 evs3.
      [Settled (Inr ex_echo), Trigger, Collected] = evs1 @ Settled r # evs2 @ Trigger # evs3"
    by blast+
  from one_cycle_in_flight [where w = ex_wire and cfg = ex_cfg and e = ex_env
      and args = "call_args ex_cfg ex_wire" and k = 2 and m = 2] ex_idle ex_collect
  have b: "run ex_cfg ex_env [Trigger, Trigger, Trigger, Collected, Trigger, Trigger] (Idle, ex_wire) =
     (Exchanging, ex_wire\<lparr>syncing := True, trace := [CallExchange (call_args ex_cfg ex_wire)]\<rparr>)"
    by (simp add: numeral_2_eq_2 tr)
  from a b c more show ?thesis by blast
qed

section \<open>Soft delete\<close>

lemma set_store_put: "set (store_put r s) = insert r {x \<in> set s. rec_id x \<noteq> rec_id r}"
  by (auto simp: store_put_def store_delete_def set_insort_key)

lemma set_fold_store_put:
  "x \<in> set (fold store_put rs s) \<Longrightarrow> x \<in> set rs \<or> (x \<in> set s \<and> rec_id x \<notin> rec_id ` set rs)"
proof (induction rs arbitrary: s)
  case Nil
  then show ?case by simp
next
  case (Cons r rs)
  from Cons.IH [of "store_put r s"] Cons.prems show ?case
    by (auto simp: set_store_put)
qed

lemma all_items_tombstones:
  assumes "x \<in> set (all_items t' (fold store_put (map (tombstone t) ids) s))"
  shows "rec_id x \<notin> set ids \<and> x \<in> set (all_items t' s)"
proof -
  from assms have m: "x \<in> set (fold store_put (map (tombstone t) ids) s)"
    and nd: "deleted x \<noteq> Some True" and ty: "rec_type x = t'"
    by (auto simp: all_items_def)
  from set_fold_store_put [OF m] nd
  have "x \<in> set s \<and> rec_id x \<notin> rec_id ` set (map (tombstone t) ids)"
    by (auto simp: tombstone_def)
  moreover have "rec_id ` set (map (tombstone t) ids) = set ids"
    by (auto simp: tombstone_def image_iff)
  ultimately show ?thesis using nd ty by (auto simp: all_items_def)
qed

lemma those_map_Some:
  "list_all (\<lambda>x. f x \<noteq> None) xs \<Longrightarrow> those (map f xs) = Some (map (\<lambda>x. the (f x)) xs)"
  by (induction xs) auto

lemma all_api_hooked:
  assumes "\<not> request_fails e ReqOpen" and "\<not> request_fails e (ReqGetAllType t)"
    and "list_all (\<lambda>item. hooked e BeforeRead item \<noteq> None) (all_items t s)"
  shows "all_api e t s =
     Resolved (map (\<lambda>item. spread (data (fst (the (hooked e BeforeRead item))))) (all_items t s))"
  using assms(1,2) by (simp add: all_api_def those_map_Some [OF assms(3)] comp_def)

lemma all_api_no_hooks:
  assumes "\<not> request_fails e ReqOpen" and "\<not> request_fails e (ReqGetAllType t)"
    and "hooks e = None"
  shows "all_api e t s = Resolved (map (\<lambda>item. spread (data item)) (all_items t s))"
proof -
  have "list_all (\<lambda>item. hooked e BeforeRead item \<noteq> None) (all_items t s)"
    by (simp add: hooked_no_hooks [OF assms(3)] list_all_iff)
  from all_api_hooked [OF assms(1,2) this] show ?thesis
    by (simp add: hooked_no_hooks [OF assms(3)])
qed

text \<open>
  Claim C6. Let \<open>delete(...ids)\<close> be called with an id among its arguments, on any store
  (with or without a row for the id), the database opening and the \<open>put\<close> requests not
  failing. The call resolves. The row of the id exists with \<open>deleted: true\<close>, \<open>data\<close> the
  empty object and \<open>unsynced: "true"\<close>, and the raw read returns it. \<open>get(id)\<close> resolves with
  \<open>undefined\<close>. The rows that \<open>all()\<close> selects, for any type, do not include the id and were
  selected before the delete. When the \<open>beforeRead\<close> hooks settle on these rows, \<open>all()\<close>
  resolves with one entry for each of them, in order: a copy of the data of the row as the
  hooks leave it, which without hooks is the stored data.
\<close>

theorem soft_delete_visibility:
  assumes op: "\<not> request_fails e ReqOpen"
    and wr: "\<forall>j \<in> set ids. \<not> request_fails e (ReqPut j)"
    and i: "i \<in> set ids"
  shows "fst (softDelete e t ids w) = Resolved () \<and>
         store_get i (db (snd (softDelete e t ids w))) =
           Some \<lparr>rec_id = i, rec_type = t, deleted = Some True, unsynced = Some ''true'',
                 data = JObj []\<rparr> \<and>
         (\<not> request_fails e (ReqGet i) \<longrightarrow>
            getRawUnhookedRecord e i (db (snd (softDelete e t ids w))) =
              Resolved (Some (tombstone t i)) \<and>
            get_api e i (db (snd (softDelete e t ids w))) = Resolved JUndefined) \<and>
         (\<forall>x \<in> set (all_items t' (db (snd (softDelete e t ids w)))).
            rec_id x \<noteq> i \<and> x \<in> set (all_items t' (db w))) \<and>
         (\<not> request_fails e (ReqGetAllType t') \<longrightarrow>
          list_all (\<lambda>item. hooked e BeforeRead item \<noteq> None)
            (all_items t' (db (snd (softDelete e t ids w)))) \<longrightarrow>
            all_api e t' (db (snd (softDelete e t ids w))) =
              Resolved (map (\<lambda>item. spread (data (fst (the (hooked e BeforeRead item)))))
                          (all_items t' (db (snd (softDelete e t ids w)))))) \<and>
         (\<not> request_fails e (ReqGetAllType t') \<longrightarrow> hooks e = None \<longrightarrow>
            all_api e t' (db (snd (softDelete e t ids w))) =
              Resolved (map (\<lambda>item. spread (data item))
                          (all_items t' (db (snd (softDelete e t ids w))))))"
proof -
  from i have ne: "ids \<noteq> []" by auto
  note ok = softDelete_ok [OF op wr ne]
  have g: "store_get i (db (snd (softDelete e t ids w))) = Some (tombstone t i)"
    by (simp add: ok store_get_tombstones [OF i])
  have a: "\<forall>x \<in> set (all_items t' (db (snd (softDelete e t ids w)))).
            rec_id x \<noteq> i \<and> x \<in> set (all_items t' (db w))"
    using all_items_tombstones [of _ t' t ids "db w"] i by (auto simp: ok)
  have r: "\<not> request_fails e (ReqGet i) \<longrightarrow>
            getRawUnhookedRecord e i (db (snd (softDelete e t ids w))) =
              Resolved (Some (tombstone t i)) \<and>
            get_api e i (db (snd (softDelete e t ids w))) = Resolved JUndefined"
    using op by (simp add: g getRawUnhookedRecord_def get_api_def) (simp add: tombstone_def)
  from g have g': "store_get i (db (snd (softDelete e t ids w))) =
           Some \<lparr>rec_id = i, rec_type = t, deleted = Some True, unsynced = Some ''true'',
                 data = JObj []\<rparr>"
    by (simp add: tombstone_def)
  show ?thesis
    using g' r a all_api_hooked [OF op, of t' "db (snd (softDelete e t ids w))"]
      all_api_no_hooks [OF op, of t' "db (snd (softDelete e t ids w))"]
    by (simp add: ok)
qed

theorem soft_delete_visibility_witness:
  "fst (softDelete ex_env ''todo'' [''7''] ex_wire) = Resolved () \<and>
   store_get ''7'' (db ex_wire) = None \<and>
   store_get ''7'' (db (snd (softDelete ex_env ''todo'' [''7''] ex_wire))) =
     Some \<lparr>rec_id = ''7'', rec_type = ''todo'', deleted = Some True, unsynced = Some ''true'',
           data = JObj []\<rparr> \<and>
   get_api ex_env ''7'' (db (snd (softDelete ex_env ''todo'' [''7''] ex_wire))) = Resolved JUndefined \<and>
   get_api ex_env ''1'' (db (snd (softDelete ex_env ''todo'' [''1''] ex_wire))) = Resolved JUndefined \<and>
   all_api ex_env ''todo'' (db ex_wire) = Resolved [ex_data] \<and>
   all_api ex_env ''todo'' (db (snd (softDelete ex_env ''todo'' [''1''] ex_wire))) = Resolved []"
proof -
  have nf: "\<not> request_fails ex_env q" for q by (simp add: ex_env_def)
  have wr: "\<forall>j \<in> set ids. \<not> request_fails ex_env (ReqPut j)" for ids by (simp add: nf)
  have nh: "hooks ex_env = None" by (simp add: ex_env_def)
  have d1: "db (snd (softDelete ex_env ''todo'' [''1''] ex_wire)) = [tombstone ''todo'' ''1'']"
    by (simp add: softDelete_ok [OF nf wr])
       (simp add: store_put_def store_delete_def ex_wire_def ex_empty_def ex_rec_def tombstone_def)
  have before: "store_get ''7'' (db ex_wire) = None"
    "all_api ex_env ''todo'' (db ex_wire) = Resolved [ex_data]"
    by (simp_all add: store_get_def all_api_no_hooks [OF nf nf nh] all_items_def)
       (simp_all add: ex_wire_def ex_empty_def ex_rec_def spread_def ex_data_def)
  have after: "all_items ''todo'' [tombstone ''todo'' ''1''] = []"
    by (simp add: all_items_def tombstone_def)
  from soft_delete_visibility [OF nf wr, of "''7''" "[''7'']" "''todo''" ex_wire "''todo''"]
       soft_delete_visibility [OF nf wr, of "''1''" "[''1'']" "''todo''" ex_wire "''todo''"]
  show ?thesis
    by (simp add: nf nh before) (simp add: d1 after)
qed

section \<open>Round trip\<close>








section \<open>Subscribers registered in the same millisecond\<close>

lemma values_update: "set (map snd (AList.update k v al)) \<subseteq> insert v (set (map snd al))"
  by (induction al) auto

lemma values_delete: "set (map snd (AList.delete k al)) \<subseteq> set (map snd al)"
  by (induction al) auto

text \<open>
  Claim C10. \<open>listenToUnsyncedChanges\<close> keys a callback by the decimal string of the current
  time in milliseconds. Let two callbacks be registered at the same time \<open>now\<close>, \<open>c1\<close> first.
  Both calls return a handle for the same key. After the first call the key holds \<open>c1\<close>, after
  the second it holds \<open>c2\<close>, and the subscribers are what they would be had \<open>c1\<close> never been
  registered: the notifier calls \<open>c2\<close> and the callbacks registered before, not \<open>c1\<close> on
  account of its own registration. Either handle deletes that one entry, so the first
  caller unsubscribing removes the second caller's subscription.
\<close>

theorem subscriber_key_collision:
  fixes subs :: "(string \<times> 'cb) list" and now :: nat and c1 c2 :: 'cb
  defines "s1 \<equiv> fst (listenToUnsyncedChanges now c1 subs)"
    and "h1 \<equiv> snd (listenToUnsyncedChanges now c1 subs)"
  defines "s2 \<equiv> fst (listenToUnsyncedChanges now c2 s1)"
    and "h2 \<equiv> snd (listenToUnsyncedChanges now c2 s1)"
  shows "h1 = string_of_nat now \<and> h2 = h1 \<and>
         map_of s1 h1 = Some c1 \<and>
         map_of s2 h1 = Some c2 \<and>
         s2 = fst (listenToUnsyncedChanges now c2 subs) \<and>
         set (notified s2) \<subseteq> insert c2 (set (notified subs)) \<and>
         unsubscribe h1 s2 = unsubscribe h2 s2 \<and>
         map_of (unsubscribe h1 s2) h2 = None \<and>
         set (notified (unsubscribe h1 s2)) \<subseteq> set (notified subs)"
proof -
  have "unsubscribe h1 s2 = AList.delete h1 subs"
    by (simp add: unsubscribe_def s2_def s1_def h1_def listenToUnsyncedChanges_def Let_def
        delete_update_same)
  then show ?thesis
    using values_update [of "string_of_nat now" c2 subs] values_delete [of h1 subs]
    by (simp add: s1_def s2_def h1_def h2_def listenToUnsyncedChanges_def Let_def notified_def
        update_conv' delete_conv')
qed

theorem subscriber_key_collision_witness:
  "fst (listenToUnsyncedChanges 1730 (2::nat) (fst (listenToUnsyncedChanges 1730 1 []))) =
     [(''1730'', 2)] \<and>
   notified (fst (listenToUnsyncedChanges 1730 (2::nat) (fst (listenToUnsyncedChanges 1730 1 []))))
     = [2] \<and>
   unsubscribe (snd (listenToUnsyncedChanges 1730 (1::nat) []))
     (fst (listenToUnsyncedChanges 1730 (2::nat) (fst (listenToUnsyncedChanges 1730 1 [])))) = []"
proof -
  have k: "string_of_nat 1730 = ''1730''" by code_simp
  from subscriber_key_collision [of 1730 "1::nat" "[]" 2] k
  show ?thesis
    by (simp add: listenToUnsyncedChanges_def Let_def notified_def unsubscribe_def)
qed

end
